theory Spec2Isabelle
  imports Main
begin

section \<open>JavaScript values used by the widgets\<close>

text \<open>
  Numbers that the modelled code handles are integral (millisecond instants, counts,
  identifiers, month and day numbers), so they are HOL integers and naturals; strings
  are \<open>string\<close>. Template literals, property keys and \<open>+\<close> on a number and a
  string print the number in decimal (JavaScript does so for every integer below
  \<open>10^21\<close>), which \<open>string_of_nat\<close> and \<open>string_of_int\<close> do.
\<close>

definition digit_char :: "nat \<Rightarrow> char" where
  "digit_char d = ''0123456789'' ! d"

fun string_of_nat :: "nat \<Rightarrow> string" where
  "string_of_nat n =
     (if n < 10 then [digit_char n] else string_of_nat (n div 10) @ [digit_char (n mod 10)])"

declare string_of_nat.simps [simp del]

definition string_of_int :: "int \<Rightarrow> string" where
  "string_of_int i = (if i < 0 then CHR ''-'' # string_of_nat (nat (- i)) else string_of_nat (nat i))"

text \<open>
  The remainder operator \<open>%\<close> of JavaScript truncates towards zero: the result has the
  sign of the dividend. \<open>Math.floor(a / b)\<close> on integers is \<open>a div b\<close> of HOL.
\<close>

definition js_rem :: "int \<Rightarrow> int \<Rightarrow> int" where
  "js_rem a b = (if a < 0 then - ((- a) mod \<bar>b\<bar>) else a mod \<bar>b\<bar>)"

text \<open>The digits, and the mathematical value of a string of decimal digits.\<close>

definition is_digit :: "char \<Rightarrow> bool" where
  "is_digit c = (c \<in> set ''0123456789'')"

definition digit_val :: "char \<Rightarrow> nat" where
  "digit_val c = of_char c - 48"

definition decimal_value :: "string \<Rightarrow> nat" where
  "decimal_value s = foldl (\<lambda>a c. 10 * a + digit_val c) 0 s"

text \<open>
  \<open>Number(s)\<close> on a string of decimal digits, as the indexer applies it to the two
  groups of its pattern. The result is a double: the mathematical value when that is
  below \<open>2^53\<close>, otherwise the nearest multiple of the spacing of the doubles at that
  magnitude (\<open>2^(b - 53)\<close> for a value of \<open>b\<close> bits), a tie going to the even multiple,
  and \<open>Infinity\<close> when the rounded value reaches \<open>2^1024\<close> (round to nearest,
  ties to even, as the engines convert a decimal literal). Distinct values give distinct
  property keys, so the values themselves serve as the keys of the index.
\<close>

datatype jsnum = Fin nat | Infinity

fun bit_length :: "nat \<Rightarrow> nat" where
  "bit_length n = (if n = 0 then 0 else Suc (bit_length (n div 2)))"

declare bit_length.simps [simp del]

definition to_double :: "nat \<Rightarrow> jsnum" where
  "to_double n =
     (if n < 2 ^ 53 then Fin n
      else (let ulp = 2 ^ (bit_length n - 53);
                q = n div ulp;
                r = n mod ulp;
                m = (if 2 * r < ulp \<or> (2 * r = ulp \<and> even q) then q else q + 1) * ulp
            in if m < 2 ^ 1024 then Fin m else Infinity))"

definition Number :: "string \<Rightarrow> jsnum" where
  "Number s = to_double (decimal_value s)"

text \<open>
  The \<open>Id\<close> property of a record as JSON delivers it: absent, a number or a string.
  \<open>truthy_id\<close> is the test \<open>if (studentId)\<close>; \<open>id_to_string\<close> is the conversion
  to a property key and inside a template literal.
\<close>

datatype jsid = IdUndefined | IdNum nat | IdStr string

fun truthy_id :: "jsid \<Rightarrow> bool" where
  "truthy_id IdUndefined = False"
| "truthy_id (IdNum n) = (n \<noteq> 0)"
| "truthy_id (IdStr s) = (s \<noteq> [])"

fun id_to_string :: "jsid \<Rightarrow> string" where
  "id_to_string IdUndefined = ''undefined''"
| "id_to_string (IdNum n) = string_of_nat n"
| "id_to_string (IdStr s) = s"

text \<open>
  The value of one of the properties \<open>FamilyName\<close>, \<open>PersonalName\<close>, \<open>BirthDay\<close>,
  \<open>DirectImage\<close>: \<open>undefined\<close> or a string. An object has such a property of its own
  (\<open>Some v\<close>) or not (\<open>None\<close>). Reading \<open>obj.X\<close> gives the own property when there
  is one, otherwise the property of that name on \<open>Object.prototype\<close>, otherwise
  \<open>undefined\<close>. \<open>truthy\<close> is the test of \<open>||\<close> and \<open>!\<close>, \<open>to_string\<close> the
  conversion inside a template literal.
\<close>

datatype jsval = Undefined | Str string

definition read_prop :: "jsval option \<Rightarrow> jsval option \<Rightarrow> jsval" where
  "read_prop inherited own =
     (case own of
        Some v \<Rightarrow> v
      | None \<Rightarrow> (case inherited of Some v \<Rightarrow> v | None \<Rightarrow> Undefined))"

fun truthy :: "jsval \<Rightarrow> bool" where
  "truthy Undefined = False"
| "truthy (Str s) = (s \<noteq> [])"

fun to_string :: "jsval \<Rightarrow> string" where
  "to_string Undefined = ''undefined''"
| "to_string (Str s) = s"

section \<open>Birthday widget: caching fetch\<close>

text \<open>
  \<open>CONFIG.CACHE\<close> and the module's \<open>dataCache\<close> (a \<open>Map\<close> from the cache key to
  \<open>{timestamp, data}\<close>). The network is a function from the request to its outcome:
  \<open>None\<close> when \<open>fetch\<close> rejects, otherwise the response with its \<open>ok\<close> flag, its
  status and the parsed body (\<open>None\<close> when \<open>response.json()\<close> rejects). Every call
  of \<open>fetch\<close> is appended to \<open>requests\<close>, so that a run that does not load is visible
  in the state. The options object is given by its \<open>JSON.stringify\<close> text.
\<close>

record cache_config =
  DURATION :: int
  ENABLED :: bool

definition CONFIG_CACHE :: cache_config where
  "CONFIG_CACHE = \<lparr>DURATION = 3600000, ENABLED = True\<rparr>"

record 'a cache_entry =
  timestamp :: int
  data :: 'a

datatype 'a response = Response (ok: bool) (status: nat) (json: "'a option")

datatype fetch_error = NetworkError | HttpError nat | JsonError

record 'a fetch_world =
  dataCache :: "string \<rightharpoonup> 'a cache_entry"
  requests :: "(string \<times> string) list"

text \<open>
  The \<open>try\<close> block of \<open>cachedFetch\<close>: fetch, test \<open>response.ok\<close>, parse, store with
  \<open>Date.now()\<close> (the reading \<open>t_store\<close>), return; every failure is re-thrown.
\<close>

definition fetch_and_store ::
  "(string \<Rightarrow> string \<Rightarrow> 'a response option) \<Rightarrow> int \<Rightarrow> string \<Rightarrow> string \<Rightarrow> 'a fetch_world
     \<Rightarrow> (fetch_error + 'a) \<times> 'a fetch_world" where
  "fetch_and_store fetch t_store url options w =
     (let w1 = w\<lparr>requests := requests w @ [(url, options)]\<rparr> in
      case fetch url options of
        None \<Rightarrow> (Inl NetworkError, w1)
      | Some response \<Rightarrow>
          if \<not> ok response then (Inl (HttpError (status response)), w1)
          else (case json response of
                  None \<Rightarrow> (Inl JsonError, w1)
                | Some d \<Rightarrow>
                    (Inr d, w1\<lparr>dataCache := (dataCache w1)(url @ options \<mapsto>
                                   \<lparr>timestamp = t_store, data = d\<rparr>)\<rparr>)))"

text \<open>
  \<^verbatim>\<open>
  async function cachedFetch(url, options = {}) {
      if (!CONFIG.CACHE.ENABLED) {
          const response = await fetch(url, options);
          return response.json();
      }
      const cacheKey = `${url}${JSON.stringify(options)}`;
      const cachedData = dataCache.get(cacheKey);
      if (cachedData) {
          const { timestamp, data } = cachedData;
          if (Date.now() - timestamp < CONFIG.CACHE.DURATION) { return data; }
          dataCache.delete(cacheKey);
      }
      try { ... } catch (error) { console.error(...); throw error; }
  }
  \<close>
  \<open>t_lookup\<close> is the clock at the expiry test, \<open>t_store\<close> the clock when the loaded
  value is stored.
\<close>

definition cachedFetch ::
  "cache_config \<Rightarrow> (string \<Rightarrow> string \<Rightarrow> 'a response option) \<Rightarrow> int \<Rightarrow> int \<Rightarrow> string \<Rightarrow> string
     \<Rightarrow> 'a fetch_world \<Rightarrow> (fetch_error + 'a) \<times> 'a fetch_world" where
  "cachedFetch cfg fetch t_lookup t_store url options w =
     (if \<not> ENABLED cfg then
        (let w1 = w\<lparr>requests := requests w @ [(url, options)]\<rparr> in
         case fetch url options of
           None \<Rightarrow> (Inl NetworkError, w1)
         | Some response \<Rightarrow>
             (case json response of None \<Rightarrow> (Inl JsonError, w1) | Some d \<Rightarrow> (Inr d, w1)))
      else
        (let cacheKey = url @ options in
         case dataCache w cacheKey of
           Some cachedData \<Rightarrow>
             if t_lookup - timestamp cachedData < DURATION cfg then (Inr (data cachedData), w)
             else fetch_and_store fetch t_store url options
                    (w\<lparr>dataCache := (dataCache w)(cacheKey := None)\<rparr>)
         | None \<Rightarrow> fetch_and_store fetch t_store url options w))"

section \<open>Birthday widget: merging the custom list into the official data\<close>

text \<open>
  A student record with the properties the merge and the indexer read or write; the
  properties that neither touches are kept in \<open>Rest\<close>. A JavaScript object is modelled
  by its own properties (an association list with distinct keys, whose order plays no
  role in what is proved).
\<close>

record student =
  Id_field :: jsid
  FamilyName :: "jsval option"
  PersonalName :: "jsval option"
  BirthDay :: "jsval option"
  DirectImage :: "jsval option"
  Rest :: "(string \<times> string) list"

text \<open>\<open>obj[k] = v\<close>: the value of an own key is replaced in place, a new key is appended.\<close>

fun set_prop :: "string \<Rightarrow> 'v \<Rightarrow> (string \<times> 'v) list \<Rightarrow> (string \<times> 'v) list" where
  "set_prop k v [] = [(k, v)]"
| "set_prop k v (p # ps) = (if fst p = k then (k, v) # ps else p # set_prop k v ps)"

text \<open>
  The empty object \<open>{}\<close> that a new custom student starts from. The same shape holds
  what \<open>Object.prototype\<close> has of the four properties: nothing on a fresh page.
\<close>

definition empty_student :: student where
  "empty_student = \<lparr>Id_field = IdUndefined, FamilyName = None, PersonalName = None,
                     BirthDay = None, DirectImage = None, Rest = []\<rparr>"

text \<open>
  \<^verbatim>\<open>
  Object.assign(targetStudent, {
      FamilyName: customStudent.FamilyName, PersonalName: customStudent.PersonalName,
      BirthDay: customStudent.BirthDay, DirectImage: customStudent.DirectImage });
  \<close>
  The four values are read from the custom record (through \<open>proto\<close>, the properties
  of \<open>Object.prototype\<close>, where the record has none of its own) and become own
  properties of the target, also when the value is \<open>undefined\<close>.
\<close>

definition assign_custom :: "student \<Rightarrow> student \<Rightarrow> student \<Rightarrow> student" where
  "assign_custom proto targetStudent customStudent =
     targetStudent\<lparr>FamilyName := Some (read_prop (FamilyName proto) (FamilyName customStudent)),
                   PersonalName := Some (read_prop (PersonalName proto) (PersonalName customStudent)),
                   BirthDay := Some (read_prop (BirthDay proto) (BirthDay customStudent)),
                   DirectImage := Some (read_prop (DirectImage proto) (DirectImage customStudent))\<rparr>"

text \<open>
  \<open>processedData[studentId]\<close>: an own key gives its record. A name that is no own key
  is looked up on \<open>Object.prototype\<close>: \<open>__proto__\<close> gives \<open>Object.prototype\<close>
  itself, the names of its standard members give functions, and one of the four names
  that an earlier \<open>Object.assign\<close> has put there gives that value.
\<close>

datatype lookup_result =
    OwnRecord student
  | PrototypeObject
  | BuiltinFunction
  | InheritedValue jsval
  | NotFound

definition builtin_names :: "string list" where
  "builtin_names =
     [''constructor'', ''hasOwnProperty'', ''isPrototypeOf'', ''propertyIsEnumerable'',
      ''toLocaleString'', ''toString'', ''valueOf'', ''__defineGetter__'',
      ''__defineSetter__'', ''__lookupGetter__'', ''__lookupSetter__'']"

definition inherited_slot :: "student \<Rightarrow> string \<Rightarrow> jsval option" where
  "inherited_slot proto k =
     (if k = ''FamilyName'' then FamilyName proto
      else if k = ''PersonalName'' then PersonalName proto
      else if k = ''BirthDay'' then BirthDay proto
      else if k = ''DirectImage'' then DirectImage proto
      else None)"

definition get_property :: "(string \<times> student) list \<Rightarrow> student \<Rightarrow> string \<Rightarrow> lookup_result" where
  "get_property pd proto k =
     (case map_of pd k of
        Some r \<Rightarrow> OwnRecord r
      | None \<Rightarrow>
          if k = ''__proto__'' then PrototypeObject
          else if k \<in> set builtin_names then BuiltinFunction
          else (case inherited_slot proto k of Some v \<Rightarrow> InheritedValue v | None \<Rightarrow> NotFound))"

text \<open>
  The state of the merge: the working set, the warnings logged, and the four properties
  as \<open>Object.prototype\<close> has them.
\<close>

record merge_state =
  processedData :: "(string \<times> student) list"
  warnings :: "string list"
  prototype :: student

text \<open>
  The key \<open>`DVDOOM_${n}`\<close>, and the key of a new custom student, where \<open>n\<close> is
  \<open>Object.keys(processedData).length\<close>.
\<close>

definition synthetic_key :: "nat \<Rightarrow> string" where
  "synthetic_key n = ''DVDOOM_'' @ string_of_nat n"

definition custom_id :: "(string \<times> student) list \<Rightarrow> string" where
  "custom_id pd = synthetic_key (length (map fst pd))"

definition warn :: "merge_state \<Rightarrow> string \<Rightarrow> merge_state" where
  "warn st k = st\<lparr>warnings := warnings st @
                     [''Custom data references nonexistent student ID: '' @ k]\<rparr>"

text \<open>
  The body of the loop \<open>for (const customStudent of customData)\<close> of \<open>fetchBirthdays\<close>:
  \<^verbatim>\<open>
  const studentId = customStudent.Id;
  if (studentId) {
      targetStudent = processedData[studentId];
      if (!targetStudent) { console.warn(...); continue; }
  } else {
      const customId = `DVDOOM_${Object.keys(processedData).length}`;
      processedData[customId] = {};
      targetStudent = processedData[customId];
  }
  Object.assign(targetStudent, {...});
  \<close>
  A target that is a record of the working set is updated in place. When the target is
  \<open>Object.prototype\<close>, the four properties are written there. A standard function or
  an inherited non-empty string is truthy, so there is no warning, and the assignment
  changes an object that nothing here reads. An inherited value that is not truthy is
  treated as a missing student.
\<close>

definition merge_step :: "merge_state \<Rightarrow> student \<Rightarrow> merge_state" where
  "merge_step st customStudent =
     (let studentId = Id_field customStudent in
      if truthy_id studentId then
        (case get_property (processedData st) (prototype st) (id_to_string studentId) of
           OwnRecord targetStudent \<Rightarrow>
             st\<lparr>processedData := set_prop (id_to_string studentId)
                  (assign_custom (prototype st) targetStudent customStudent) (processedData st)\<rparr>
         | PrototypeObject \<Rightarrow>
             st\<lparr>prototype := assign_custom (prototype st) (prototype st) customStudent\<rparr>
         | BuiltinFunction \<Rightarrow> st
         | InheritedValue v \<Rightarrow> if truthy v then st else warn st (id_to_string studentId)
         | NotFound \<Rightarrow> warn st (id_to_string studentId))
      else
        st\<lparr>processedData := set_prop (custom_id (processedData st))
             (assign_custom (prototype st) empty_student customStudent) (processedData st)\<rparr>)"

text \<open>
  The loop, started on the copy of the official data with \<open>Object.prototype\<close> as the
  page has it (\<open>empty_student\<close> on a fresh page).
\<close>

definition merge :: "student \<Rightarrow> (string \<times> student) list \<Rightarrow> student list \<Rightarrow> merge_state" where
  "merge proto officialData customData =
     foldl merge_step \<lparr>processedData = officialData, warnings = [], prototype = proto\<rparr> customData"

text \<open>
  The number \<open>n\<close> of a key that has the synthetic form \<open>DVDOOM_n\<close> (the decimal
  numeral as the template literal prints it), and the data sets in which the counter
  \<open>Object.keys(processedData).length\<close> cannot reach a key that is already there:
  every key of the synthetic form has a number below the number of keys.
\<close>

definition synthetic_index :: "string \<Rightarrow> nat option" where
  "synthetic_index k =
     (if take 7 k = ''DVDOOM_'' \<and> string_of_nat (decimal_value (drop 7 k)) = drop 7 k
      then Some (decimal_value (drop 7 k)) else None)"

definition counter_safe :: "(string \<times> student) list \<Rightarrow> bool" where
  "counter_safe pd =
     list_all (\<lambda>k. case synthetic_index k of None \<Rightarrow> True | Some n \<Rightarrow> n < length pd) (map fst pd)"

section \<open>Birthday widget: the index by month and day\<close>

text \<open>
  The pattern \<open>/(\d+)\/(\d+)/\<close> applied by \<open>String.prototype.match\<close>: the leftmost
  position at which a maximal run of digits, a slash and a maximal run of digits start.
  \<open>match_at\<close> tries one position, \<open>birthday_match\<close> moves the position to the right.
\<close>

definition match_at :: "string \<Rightarrow> (string \<times> string) option" where
  "match_at s =
     (let g1 = takeWhile is_digit s; r = dropWhile is_digit s in
      if g1 = [] then None
      else (case r of
              [] \<Rightarrow> None
            | c # r2 \<Rightarrow>
                if c = CHR ''/'' \<and> takeWhile is_digit r2 \<noteq> []
                then Some (g1, takeWhile is_digit r2) else None))"

fun birthday_match :: "string \<Rightarrow> (string \<times> string) option" where
  "birthday_match [] = None"
| "birthday_match (c # cs) =
     (case match_at (c # cs) of Some g \<Rightarrow> Some g | None \<Rightarrow> birthday_match cs)"

text \<open>
  What the pattern asks of a string, stated without the search: the string starts with
  one or more digits, a slash and one or more digits.
\<close>

definition starts_with_date :: "string \<Rightarrow> bool" where
  "starts_with_date s =
     (\<exists>h1 h2 rest. s = h1 @ CHR ''/'' # h2 @ rest \<and> h1 \<noteq> [] \<and> h2 \<noteq> [] \<and>
        list_all is_digit h1 \<and> list_all is_digit h2)"

record display_entry =
  name :: string
  images :: "string list"

type_synonym date_index = "jsnum \<rightharpoonup> (jsnum \<rightharpoonup> display_entry list)"

text \<open>
  \<^verbatim>\<open>
  name: `${student.FamilyName} ${student.PersonalName}`,
  images: [student.DirectImage ||
      `https://schaledb.com/images/student/collection/${student.Id}.webp`]
  \<close>
  The properties are read through \<open>proto\<close>, the properties of \<open>Object.prototype\<close>.
\<close>

definition student_name :: "student \<Rightarrow> student \<Rightarrow> string" where
  "student_name proto s =
     to_string (read_prop (FamilyName proto) (FamilyName s)) @ '' '' @
     to_string (read_prop (PersonalName proto) (PersonalName s))"

definition student_image :: "student \<Rightarrow> student \<Rightarrow> string" where
  "student_image proto s =
     (if truthy (read_prop (DirectImage proto) (DirectImage s))
      then to_string (read_prop (DirectImage proto) (DirectImage s))
      else ''https://schaledb.com/images/student/collection/'' @ id_to_string (Id_field s) @ ''.webp'')"

text \<open>
  \<^verbatim>\<open>
  const existingEntry = acc[month][day].find(entry => entry.name === studentData.name);
  if (existingEntry) {
      if (!existingEntry.images.includes(studentData.images[0])) {
          existingEntry.images.push(studentData.images[0]);
      }
  } else {
      acc[month][day].push(studentData);
  }
  \<close>
\<close>

fun bucket_add :: "display_entry list \<Rightarrow> string \<Rightarrow> string \<Rightarrow> display_entry list" where
  "bucket_add [] nm img = [\<lparr>name = nm, images = [img]\<rparr>]"
| "bucket_add (e # es) nm img =
     (if name e = nm
      then (if img \<in> set (images e) then e else e\<lparr>images := images e @ [img]\<rparr>) # es
      else e # bucket_add es nm img)"

text \<open>
  The reducer of \<open>Object.values(processedData).reduce(..., {})\<close>:
  \<^verbatim>\<open>
  const birthdayMatch = student.BirthDay?.match(/(\d+)\/(\d+)/);
  if (!birthdayMatch) return acc;
  const [, month, day] = birthdayMatch.map(Number);
  acc[month] = acc[month] || {};
  acc[month][day] = acc[month][day] || [];
  \<close>
\<close>

definition index_step :: "student \<Rightarrow> date_index \<Rightarrow> student \<Rightarrow> date_index" where
  "index_step proto acc s =
     (case read_prop (BirthDay proto) (BirthDay s) of
        Undefined \<Rightarrow> acc
      | Str b \<Rightarrow>
          (case birthday_match b of
             None \<Rightarrow> acc
           | Some (g1, g2) \<Rightarrow>
               (let month = Number g1; day = Number g2;
                    days = (case acc month of None \<Rightarrow> Map.empty | Some m \<Rightarrow> m);
                    bucket = (case days day of None \<Rightarrow> [] | Some es \<Rightarrow> es)
                in acc(month \<mapsto> days(day \<mapsto>
                     bucket_add bucket (student_name proto s) (student_image proto s))))))"

definition index_of :: "student \<Rightarrow> student list \<Rightarrow> date_index" where
  "index_of proto students = foldl (index_step proto) Map.empty students"

text \<open>
  Reading the index: the bucket at \<open>[month][day]\<close>, empty when either key is absent.
\<close>

definition bucket_at :: "date_index \<Rightarrow> jsnum \<Rightarrow> jsnum \<Rightarrow> display_entry list" where
  "bucket_at acc month day =
     (case acc month of
        None \<Rightarrow> []
      | Some days \<Rightarrow> (case days day of None \<Rightarrow> [] | Some es \<Rightarrow> es))"

text \<open>
  The invariant of a bucket (distinct names, and no image twice in an entry), and of an
  index: every bucket satisfies it.
\<close>

definition bucket_ok :: "display_entry list \<Rightarrow> bool" where
  "bucket_ok b = (distinct (map name b) \<and> (\<forall>e \<in> set b. distinct (images e)))"

definition index_ok :: "date_index \<Rightarrow> bool" where
  "index_ok acc = (\<forall>m days d b. acc m = Some days \<longrightarrow> days d = Some b \<longrightarrow> bucket_ok b)"

text \<open>The month and day that the indexer reads from a record, when it reads any.\<close>

definition parsed_date :: "student \<Rightarrow> student \<Rightarrow> (jsnum \<times> jsnum) option" where
  "parsed_date proto s =
     (case read_prop (BirthDay proto) (BirthDay s) of
        Undefined \<Rightarrow> None
      | Str b \<Rightarrow>
          (case birthday_match b of
             None \<Rightarrow> None
           | Some (g1, g2) \<Rightarrow> Some (Number g1, Number g2)))"

section \<open>Events2.js: countdown text\<close>

text \<open>
  \<^verbatim>\<open>
  function formatTimeRemaining(duration) {
      const days = Math.floor(duration / (1000 * 60 * 60 * 24));
      const hours = Math.floor((duration % (1000 * 60 * 60 * 24)) / (1000 * 60 * 60));
      const minutes = Math.floor((duration % (1000 * 60 * 60)) / (1000 * 60));
      return `${days > 0 ? days + "d " : ""}${hours}h ${minutes}m`;
  }
  \<close>
\<close>

definition formatTimeRemaining :: "int \<Rightarrow> string" where
  "formatTimeRemaining duration =
     (let days = duration div (1000 * 60 * 60 * 24);
          hours = js_rem duration (1000 * 60 * 60 * 24) div (1000 * 60 * 60);
          minutes = js_rem duration (1000 * 60 * 60) div (1000 * 60)
      in (if days > 0 then string_of_int days @ ''d '' else '''')
         @ string_of_int hours @ ''h '' @ string_of_int minutes @ ''m'')"

text \<open>
  \<^verbatim>\<open>
  function getTimerDisplayText(currentTime, startTime, endTime) {
      if (currentTime < startTime) {
          return `Starts in: ${formatTimeRemaining(startTime - currentTime)}`;
      } else if (currentTime < endTime) {
          return `Time Left: ${formatTimeRemaining(endTime - currentTime)}`;
      } else {
          return "Event Ended";
      }
  }
  \<close>
\<close>

definition getTimerDisplayText :: "int \<Rightarrow> int \<Rightarrow> int \<Rightarrow> string" where
  "getTimerDisplayText currentTime startTime endTime =
     (if currentTime < startTime
        then ''Starts in: '' @ formatTimeRemaining (startTime - currentTime)
      else if currentTime < endTime
        then ''Time Left: '' @ formatTimeRemaining (endTime - currentTime)
      else ''Event Ended'')"

text \<open>
  The duration format in the words of the specification, to compare with
  \<open>formatTimeRemaining\<close>: days, hours and minutes by floor division, the days left out
  when they are zero, hours and minutes always printed.
\<close>

definition duration_by_floor_division :: "int \<Rightarrow> string" where
  "duration_by_floor_division ms =
     (let days = ms div 86400000;
          hours = (ms mod 86400000) div 3600000;
          minutes = (ms mod 3600000) div 60000
      in (if days = 0 then '''' else string_of_int days @ ''d '')
         @ string_of_int hours @ ''h '' @ string_of_int minutes @ ''m'')"

section \<open>Utils.js: countdown text and expiry\<close>

text \<open>
  \<open>formatDuration\<close> of Utils.js has the body of \<open>formatTimeRemaining\<close>, and
  \<open>calculateTimeLeft\<close> the cases of \<open>getTimerDisplayText\<close>, with the instant
  \<open>now\<close> read from the clock and the bounds resolved to milliseconds by \<open>Date\<close>;
  the model takes the three instants as arguments.
\<close>

definition formatDuration :: "int \<Rightarrow> string" where
  "formatDuration duration =
     (let days = duration div (1000 * 60 * 60 * 24);
          hours = js_rem duration (1000 * 60 * 60 * 24) div (1000 * 60 * 60);
          minutes = js_rem duration (1000 * 60 * 60) div (1000 * 60)
      in (if days > 0 then string_of_int days @ ''d '' else '''')
         @ string_of_int hours @ ''h '' @ string_of_int minutes @ ''m'')"

definition calculateTimeLeft :: "int \<Rightarrow> int \<Rightarrow> int \<Rightarrow> string" where
  "calculateTimeLeft now start end' =
     (if now < start then ''Starts in: '' @ formatDuration (start - now)
      else if now < end' then ''Time Left: '' @ formatDuration (end' - now)
      else ''Event Ended'')"

text \<open>
  \<^verbatim>\<open>
  export function hasExpired(endTime) {
      let expirationTime;
      if (typeof endTime === 'string') {
          const parsedDate = new Date(endTime);
          expirationTime = parsedDate.getTime();
      } else {
          expirationTime = endTime < 1e12 ? endTime * 1000 : endTime;
      }
      return expirationTime <= Date.now();
  }
  \<close>
  An end time is a number or a string. \<open>parse\<close> is \<open>new Date(s).getTime()\<close>, with
  \<open>None\<close> for \<open>NaN\<close> (an unparsable date), which no comparison accepts; \<open>now\<close> is
  \<open>Date.now()\<close>.
\<close>

datatype end_time = EndNumber int | EndString string

definition expirationTime :: "(string \<Rightarrow> int option) \<Rightarrow> end_time \<Rightarrow> int option" where
  "expirationTime parse endTime =
     (case endTime of
        EndString s \<Rightarrow> parse s
      | EndNumber n \<Rightarrow> Some (if n < 1000000000000 then n * 1000 else n))"

definition hasExpired :: "(string \<Rightarrow> int option) \<Rightarrow> int \<Rightarrow> end_time \<Rightarrow> bool" where
  "hasExpired parse now endTime =
     (case expirationTime parse endTime of None \<Rightarrow> False | Some t \<Rightarrow> t \<le> now)"

section \<open>Events2.js: processing the events\<close>

text \<open>
  \<^verbatim>\<open>
  async function processEventPair(eventEntries, localizationData, lang, timerIds) {
      let innerEventsCell = '';
      for (const [eventNum, eventData] of eventEntries) {
          if (hasExpired(eventData.end)) {
              console.log(ERROR_MESSAGES.EXPIRED_EVENT, eventNum);
              continue;
          }
          const eventDetails = processEventDetails(eventData, localizationData);
          const eventContent = generateEventDisplay(eventDetails, lang, eventNum, timerIds);
          innerEventsCell += eventContent;
      }
      return innerEventsCell;
  }
  \<close>
  The HTML of one card is the parameter \<open>render\<close>; \<open>generateEventDisplay\<close> also
  starts the countdown of the card, recorded in \<open>started\<close> by the element id
  \<open>event-timer-N\<close>. Each entry comes with the clock reading of its expiry test.
\<close>

record event_data =
  ev_event :: string
  ev_start :: end_time
  ev_end :: end_time

record pair_state =
  innerEventsCell :: string
  console_log :: "string list"
  started :: "string list"

definition processEvent ::
  "(string \<Rightarrow> int option) \<Rightarrow> (string \<Rightarrow> event_data \<Rightarrow> string) \<Rightarrow> pair_state
     \<Rightarrow> int \<times> string \<times> event_data \<Rightarrow> pair_state" where
  "processEvent parse render st entry =
     (case entry of (now, eventNum, eventData) \<Rightarrow>
        if hasExpired parse now (ev_end eventData)
        then st\<lparr>console_log := console_log st @ [''Event has expired, skipping display '' @ eventNum]\<rparr>
        else st\<lparr>innerEventsCell := innerEventsCell st @ render eventNum eventData,
                started := started st @ [''event-timer-'' @ eventNum]\<rparr>)"

definition processEventPair ::
  "(string \<Rightarrow> int option) \<Rightarrow> (string \<Rightarrow> event_data \<Rightarrow> string)
     \<Rightarrow> (int \<times> string \<times> event_data) list \<Rightarrow> pair_state" where
  "processEventPair parse render eventEntries =
     foldl (processEvent parse render)
       \<lparr>innerEventsCell = [], console_log = [], started = []\<rparr> eventEntries"

section \<open>Countdown timers on the page\<close>

text \<open>
  The part of the browser that the timers use: the elements that \<open>getElementById\<close>
  finds, with their text; the active intervals, each with the function it calls; the
  counter of interval handles; the tracking array \<open>timerIds\<close> that the caller passes
  down; and what the free identifier \<open>timerIds\<close> inside \<open>updateEventTimer\<close> resolves
  to (that function has no parameter and Events2.js no binding of this name, so the
  identifier is looked up on the global object: \<open>None\<close> when nothing defines it).
  \<open>invoked\<close> logs every run of an update function, \<open>uncaught\<close> every exception that
  leaves one.
\<close>

datatype handler =
    UpdateEventTimer int int
  | UpdateTimer int int string
  | NotCallable

record page =
  elements :: "(string \<times> string) list"
  intervals :: "(nat \<times> handler) list"
  next_handle :: nat
  timerIds :: "nat list"
  global_timerIds :: "nat list option"
  invoked :: "nat list"
  uncaught :: "string list"

definition setInterval :: "handler \<Rightarrow> page \<Rightarrow> nat \<times> page" where
  "setInterval f p =
     (next_handle p, p\<lparr>intervals := intervals p @ [(next_handle p, f)],
                        next_handle := Suc (next_handle p)\<rparr>)"

definition clearInterval :: "nat \<Rightarrow> page \<Rightarrow> page" where
  "clearInterval h p = p\<lparr>intervals := filter (\<lambda>e. fst e \<noteq> h) (intervals p)\<rparr>"

text \<open>
  \<^verbatim>\<open>
  function cleanupTimer(timerId, timerIds) {
      try {
          clearInterval(timerId);
          const index = timerIds.indexOf(timerId);
          if (index > -1) { timerIds.splice(index, 1); }
      } catch (error) { ... }
  }
  \<close>
  The array is returned beside the page, since the callers pass different arrays.
\<close>

definition cleanupTimer :: "nat \<Rightarrow> nat list \<Rightarrow> page \<Rightarrow> nat list \<times> page" where
  "cleanupTimer timerId arr p = (remove1 timerId arr, clearInterval timerId p)"

text \<open>
  The call \<open>cleanupTimer(timerId, timerIds)\<close> as \<open>updateEventTimer\<close> writes it: the
  second argument is the free identifier, and evaluating it throws a ReferenceError
  when it is not defined, before \<open>cleanupTimer\<close> is entered.
\<close>

definition cleanup_from_update :: "nat \<Rightarrow> page \<Rightarrow> string option \<times> page" where
  "cleanup_from_update timerId p =
     (case global_timerIds p of
        None \<Rightarrow> (Some ''ReferenceError: timerIds is not defined'', p)
      | Some arr \<Rightarrow>
          (case cleanupTimer timerId arr p of
             (arr', p') \<Rightarrow> (None, p'\<lparr>global_timerIds := Some arr'\<rparr>)))"

text \<open>
  \<^verbatim>\<open>
  function updateEventTimer(startTime, endTime, timerId) {
      const timerElement = document.getElementById(timerId);
      if (!timerElement) {
          cleanupTimer(timerId, timerIds);
          return;
      }
      ...
      let displayText = getTimerDisplayText(currentTime, startTimeMs, endTimeMs);
      timerElement.textContent = displayText;
      if (displayText === "Event Ended") {
          cleanupTimer(timerId, timerIds);
      }
  }
  \<close>
  Its third argument is what \<open>initializeEventTimer\<close> passes: inside the delayed
  function, \<open>const timerId = setInterval(...)\<close> shadows the element id, so the
  interval handle arrives, and \<open>getElementById\<close> looks for the handle's numeral.
\<close>

definition updateEventTimer :: "int \<Rightarrow> int \<Rightarrow> int \<Rightarrow> nat \<Rightarrow> page \<Rightarrow> string option \<times> page" where
  "updateEventTimer now startTime endTime timerId p =
     (case map_of (elements p) (string_of_nat timerId) of
        None \<Rightarrow> cleanup_from_update timerId p
      | Some old \<Rightarrow>
          (let displayText = getTimerDisplayText now startTime endTime;
               p1 = p\<lparr>elements := set_prop (string_of_nat timerId) displayText (elements p)\<rparr>
           in if displayText = ''Event Ended'' then cleanup_from_update timerId p1
              else (None, p1)))"

text \<open>
  The function that \<open>initializeEventTimer\<close> delays by \<open>CLEANUP_DELAY\<close>:
  \<^verbatim>\<open>
  const timerId = setInterval(() => {
      updateEventTimer(startTime, endTime, timerId);
  }, CONFIG.TIMER.UPDATE_INTERVAL);
  timerIds.push(timerId);
  \<close>
\<close>

definition initializeEventTimer :: "int \<Rightarrow> int \<Rightarrow> page \<Rightarrow> page" where
  "initializeEventTimer startTime endTime p =
     (case setInterval (UpdateEventTimer startTime endTime) p of
        (timerId, p') \<Rightarrow> p'\<lparr>timerIds := timerIds p' @ [timerId]\<rparr>)"

text \<open>
  Utils.js:
  \<^verbatim>\<open>
  export function createCountdownTimer(startTime, endTime, elementId, timerIds) {
      let timerId = setInterval(1000);
      const updateTimer = () => {
          const timerElement = document.getElementById(elementId);
          const displayText = calculateTimeLeft(startTime, endTime);
          if (timerElement) { timerElement.textContent = displayText; }
          else { clearInterval(timerId); }
          if (displayText === "Event Ended") { clearInterval(timerId); }
      };
      updateTimer();
      timerId = setInterval(updateTimer, 1000);
      timerIds.push(timerId);
  }
  \<close>
  \<open>updateTimer\<close> takes the current value of the variable \<open>timerId\<close> as an argument:
  the handle of \<open>setInterval(1000)\<close> at the first call, the handle of its own interval
  at every tick.
\<close>

definition updateTimer :: "int \<Rightarrow> int \<Rightarrow> int \<Rightarrow> string \<Rightarrow> nat \<Rightarrow> page \<Rightarrow> page" where
  "updateTimer now startTime endTime elementId timerId p =
     (let displayText = calculateTimeLeft now startTime endTime;
          p1 = (case map_of (elements p) elementId of
                  Some old \<Rightarrow> p\<lparr>elements := set_prop elementId displayText (elements p)\<rparr>
                | None \<Rightarrow> clearInterval timerId p)
      in if displayText = ''Event Ended'' then clearInterval timerId p1 else p1)"

definition createCountdownTimer :: "int \<Rightarrow> int \<Rightarrow> int \<Rightarrow> string \<Rightarrow> page \<Rightarrow> page" where
  "createCountdownTimer now startTime endTime elementId p =
     (case setInterval NotCallable p of
        (h0, p0) \<Rightarrow>
          (case setInterval (UpdateTimer startTime endTime elementId)
                  (updateTimer now startTime endTime elementId h0
                     (p0\<lparr>invoked := invoked p0 @ [h0]\<rparr>)) of
             (timerId, p1) \<Rightarrow> p1\<lparr>timerIds := timerIds p1 @ [timerId]\<rparr>))"

text \<open>
  One firing of the interval \<open>h\<close> at the instant \<open>now\<close>: a cleared interval does not
  fire; an exception that leaves the called function is reported and the interval
  stays active.
\<close>

definition tick :: "int \<Rightarrow> nat \<Rightarrow> page \<Rightarrow> page" where
  "tick now h p =
     (case map_of (intervals p) h of
        None \<Rightarrow> p
      | Some NotCallable \<Rightarrow> p
      | Some (UpdateEventTimer startTime endTime) \<Rightarrow>
          (case updateEventTimer now startTime endTime h (p\<lparr>invoked := invoked p @ [h]\<rparr>) of
             (None, p') \<Rightarrow> p'
           | (Some err, p') \<Rightarrow> p'\<lparr>uncaught := uncaught p' @ [err]\<rparr>)
      | Some (UpdateTimer startTime endTime elementId) \<Rightarrow>
          updateTimer now startTime endTime elementId h (p\<lparr>invoked := invoked p @ [h]\<rparr>))"

section \<open>Properties of the countdown text\<close>

lemma formatTimeRemaining_floor:
  "0 \<le> d \<Longrightarrow> formatTimeRemaining d = duration_by_floor_division d"
proof -
  assume d: "0 \<le> d"
  then have "0 \<le> d div 86400000" by simp
  then have "(0 < d div 86400000) = (d div 86400000 \<noteq> 0)" by linarith
  with d show ?thesis
    by (simp add: formatTimeRemaining_def duration_by_floor_division_def js_rem_def Let_def)
qed

lemma formatDuration_eq: "formatDuration d = formatTimeRemaining d"
  by (simp add: formatDuration_def formatTimeRemaining_def)

text \<open>
  Claim C8. For every window, that is bounds with \<open>start \<le> end\<close>, and every instant
  \<open>now\<close>: the text is \<open>Starts in: \<close> and the formatted duration to the start when
  \<open>now < start\<close>; \<open>Time Left: \<close> and the formatted duration to the end when
  \<open>start \<le> now < end\<close>; and exactly \<open>Event Ended\<close> when \<open>now \<ge> end\<close>.
  \<open>calculateTimeLeft\<close> of Utils.js gives the same text. The formatted duration is the
  decomposition by floor division into days, hours and minutes, with the days left out
  when they are zero and hours and minutes always printed; 90000 ms gives \<open>0h 1m\<close>
  and 90000000 ms gives \<open>1d 1h 0m\<close>.
\<close>

theorem getTimerDisplayText_window:
  assumes "start \<le> end'"
  shows "(now < start \<longrightarrow>
            getTimerDisplayText now start end' = ''Starts in: '' @ formatTimeRemaining (start - now) \<and>
            formatTimeRemaining (start - now) = duration_by_floor_division (start - now)) \<and>
         (start \<le> now \<and> now < end' \<longrightarrow>
            getTimerDisplayText now start end' = ''Time Left: '' @ formatTimeRemaining (end' - now) \<and>
            formatTimeRemaining (end' - now) = duration_by_floor_division (end' - now)) \<and>
         (end' \<le> now \<longrightarrow> getTimerDisplayText now start end' = ''Event Ended'') \<and>
         calculateTimeLeft now start end' = getTimerDisplayText now start end' \<and>
         (0 \<le> d \<longrightarrow> formatTimeRemaining d = duration_by_floor_division d) \<and>
         formatTimeRemaining 90000 = ''0h 1m'' \<and>
         formatTimeRemaining 90000000 = ''1d 1h 0m''"
proof -
  have a: "now < start \<longrightarrow>
            getTimerDisplayText now start end' = ''Starts in: '' @ formatTimeRemaining (start - now) \<and>
            formatTimeRemaining (start - now) = duration_by_floor_division (start - now)"
    using formatTimeRemaining_floor [of "start - now"] by (simp add: getTimerDisplayText_def)
  have b: "start \<le> now \<and> now < end' \<longrightarrow>
            getTimerDisplayText now start end' = ''Time Left: '' @ formatTimeRemaining (end' - now) \<and>
            formatTimeRemaining (end' - now) = duration_by_floor_division (end' - now)"
    using formatTimeRemaining_floor [of "end' - now"] by (simp add: getTimerDisplayText_def)
  have c: "end' \<le> now \<longrightarrow> getTimerDisplayText now start end' = ''Event Ended''"
    using assms by (simp add: getTimerDisplayText_def)
  have same: "calculateTimeLeft now start end' = getTimerDisplayText now start end'"
    by (simp add: calculateTimeLeft_def getTimerDisplayText_def formatDuration_eq)
  have f: "0 \<le> d \<longrightarrow> formatTimeRemaining d = duration_by_floor_division d"
    using formatTimeRemaining_floor by blast
  have ex1: "formatTimeRemaining 90000 = ''0h 1m''" by code_simp
  have ex2: "formatTimeRemaining 90000000 = ''1d 1h 0m''" by code_simp
  show ?thesis
    by (rule conjI [OF a conjI [OF b conjI [OF c conjI [OF same conjI [OF f conjI [OF ex1 ex2]]]]]])
qed

theorem getTimerDisplayText_window_witness:
  "(1000::int) \<le> 90001000 \<and>
   (999::int) < 1000 \<and> getTimerDisplayText 999 1000 90001000 = ''Starts in: 0h 0m'' \<and>
   (1000::int) \<le> 1000 \<and> (1000::int) < 90001000 \<and>
   getTimerDisplayText 1000 1000 90001000 = ''Time Left: 1d 1h 0m'' \<and>
   (90001000::int) \<le> 90001000 \<and>
   getTimerDisplayText 90001000 1000 90001000 = ''Event Ended'' \<and>
   (0::int) \<le> 90000 \<and> duration_by_floor_division 90000 = ''0h 1m''"
proof -
  have w: "(1000::int) \<le> 90001000" by simp
  have d1: "duration_by_floor_division 1 = ''0h 0m''" by code_simp
  have d2: "duration_by_floor_division 90000000 = ''1d 1h 0m''" by code_simp
  note t1 = getTimerDisplayText_window [OF w, of 999 90000]
  note t2 = getTimerDisplayText_window [OF w, of 1000 90000]
  note t3 = getTimerDisplayText_window [OF w, of 90001000 90000]
  from t1 d1 have r1: "getTimerDisplayText 999 1000 90001000 = ''Starts in: 0h 0m''" by simp
  from t2 d2 have r2: "getTimerDisplayText 1000 1000 90001000 = ''Time Left: 1d 1h 0m''" by simp
  from t3 have r3: "getTimerDisplayText 90001000 1000 90001000 = ''Event Ended''" by simp
  have p: "(0::int) \<le> 90000" by simp
  from t1 p have e1: "formatTimeRemaining 90000 = duration_by_floor_division 90000" by blast
  from t1 have e2: "formatTimeRemaining 90000 = ''0h 1m''" by blast
  have r4: "duration_by_floor_division 90000 = ''0h 1m''" using e1 [symmetric] e2 by simp
  from r1 r2 r3 r4 show ?thesis by simp
qed

section \<open>Properties of the expiry test\<close>

lemma processEvent_visible:
  "innerEventsCell st = innerEventsCell st' \<Longrightarrow> started st = started st' \<Longrightarrow>
   innerEventsCell (processEvent parse render st x) = innerEventsCell (processEvent parse render st' x) \<and>
   started (processEvent parse render st x) = started (processEvent parse render st' x)"
  by (cases x) (simp add: processEvent_def)

lemma processEvent_fold_visible:
  "innerEventsCell st = innerEventsCell st' \<Longrightarrow> started st = started st' \<Longrightarrow>
   innerEventsCell (foldl (processEvent parse render) st es)
     = innerEventsCell (foldl (processEvent parse render) st' es) \<and>
   started (foldl (processEvent parse render) st es)
     = started (foldl (processEvent parse render) st' es)"
proof (induction es arbitrary: st st')
  case Nil
  then show ?case by simp
next
  case (Cons x xs)
  have v1: "innerEventsCell (processEvent parse render st x)
              = innerEventsCell (processEvent parse render st' x)"
    and v2: "started (processEvent parse render st x) = started (processEvent parse render st' x)"
    using processEvent_visible [OF Cons.prems, of parse render x] by blast+
  show ?case using Cons.IH [OF v1 v2] by simp
qed

lemma processEvent_expired:
  "hasExpired parse now (ev_end d) \<Longrightarrow>
   innerEventsCell (processEvent parse render st (now, num, d)) = innerEventsCell st \<and>
   started (processEvent parse render st (now, num, d)) = started st"
  by (simp add: processEvent_def)

lemma processEvent_fold_filter:
  "innerEventsCell (foldl (processEvent parse render) st es) =
     innerEventsCell (foldl (processEvent parse render) st
        (filter (\<lambda>(now, num, d). \<not> hasExpired parse now (ev_end d)) es)) \<and>
   started (foldl (processEvent parse render) st es) =
     started (foldl (processEvent parse render) st
        (filter (\<lambda>(now, num, d). \<not> hasExpired parse now (ev_end d)) es))"
proof (induction es arbitrary: st)
  case Nil
  show ?case by simp
next
  case (Cons x xs)
  obtain now num d where x: "x = (now, num, d)" by (cases x) auto
  show ?case
  proof (cases "hasExpired parse now (ev_end d)")
    case True
    from processEvent_expired [OF True, of render st num]
    have "innerEventsCell (foldl (processEvent parse render) (processEvent parse render st x) xs)
            = innerEventsCell (foldl (processEvent parse render) st xs) \<and>
          started (foldl (processEvent parse render) (processEvent parse render st x) xs)
            = started (foldl (processEvent parse render) st xs)"
      unfolding x by (intro processEvent_fold_visible) simp_all
    then show ?thesis using True x Cons.IH[of st] by simp
  next
    case False
    then show ?thesis using x Cons.IH by simp
  qed
qed

text \<open>
  Claim C10. \<open>hasExpired\<close> is true exactly when the end time resolves to an instant that
  is at most the current time, so an end equal to the present instant is expired (an
  unparsable date string resolves to no instant and is never expired). A number below
  \<open>10^12\<close> is taken as seconds and multiplied by 1000, a number from \<open>10^12\<close> on is
  taken as milliseconds, and a string is resolved by \<open>Date\<close>. An event whose end
  \<open>hasExpired\<close> adds nothing to the HTML and starts no countdown: the output of
  \<open>processEventPair\<close> is that of the entries which are not expired.
\<close>

theorem hasExpired_inclusive:
  "hasExpired parse now endTime = (\<exists>t. expirationTime parse endTime = Some t \<and> t \<le> now) \<and>
   (expirationTime parse endTime = Some now \<longrightarrow> hasExpired parse now endTime) \<and>
   (n < 10 ^ 12 \<longrightarrow> expirationTime parse (EndNumber n) = Some (n * 1000)) \<and>
   (10 ^ 12 \<le> n \<longrightarrow> expirationTime parse (EndNumber n) = Some n) \<and>
   expirationTime parse (EndString s) = parse s \<and>
   (hasExpired parse now (ev_end d) \<longrightarrow>
      innerEventsCell (processEvent parse render st (now, num, d)) = innerEventsCell st \<and>
      started (processEvent parse render st (now, num, d)) = started st) \<and>
   innerEventsCell (processEventPair parse render es) =
     innerEventsCell (processEventPair parse render
        (filter (\<lambda>(now, num, d). \<not> hasExpired parse now (ev_end d)) es)) \<and>
   started (processEventPair parse render es) =
     started (processEventPair parse render
        (filter (\<lambda>(now, num, d). \<not> hasExpired parse now (ev_end d)) es))"
proof -
  have a: "hasExpired parse now endTime = (\<exists>t. expirationTime parse endTime = Some t \<and> t \<le> now)"
    by (simp add: hasExpired_def split: option.splits)
  have b: "expirationTime parse endTime = Some now \<longrightarrow> hasExpired parse now endTime"
    by (simp add: hasExpired_def)
  have c1: "n < 10 ^ 12 \<longrightarrow> expirationTime parse (EndNumber n) = Some (n * 1000)"
    by (simp add: expirationTime_def)
  have c2: "10 ^ 12 \<le> n \<longrightarrow> expirationTime parse (EndNumber n) = Some n"
    by (simp add: expirationTime_def)
  have c3: "expirationTime parse (EndString s) = parse s"
    by (simp add: expirationTime_def)
  have d: "hasExpired parse now (ev_end d) \<longrightarrow>
      innerEventsCell (processEvent parse render st (now, num, d)) = innerEventsCell st \<and>
      started (processEvent parse render st (now, num, d)) = started st"
    by (simp add: processEvent_def)
  note e = processEvent_fold_filter
    [of parse render "\<lparr>innerEventsCell = [], console_log = [], started = []\<rparr>" es,
     folded processEventPair_def]
  show ?thesis
    by (rule conjI [OF a conjI [OF b conjI [OF c1 conjI [OF c2 conjI [OF c3 conjI [OF d e]]]]]])
qed

theorem hasExpired_inclusive_witness:
  "hasExpired (\<lambda>s. None) 1700000000000 (EndNumber 1700000000) \<and>
   \<not> hasExpired (\<lambda>s. None) 1699999999999 (EndNumber 1700000000) \<and>
   hasExpired (\<lambda>s. None) 1700000000000 (EndNumber 1700000000000) \<and>
   \<not> hasExpired (\<lambda>s. None) 1700000000000 (EndString ''soon'') \<and>
   innerEventsCell (processEventPair (\<lambda>s. None) (\<lambda>num d. ''<card '' @ num @ ''>'')
      [(1700000000000, ''1'', \<lparr>ev_event = ''801'', ev_start = EndNumber 1600000000, ev_end = EndNumber 1700000000\<rparr>),
       (1700000000000, ''2'', \<lparr>ev_event = ''802'', ev_start = EndNumber 1600000000, ev_end = EndNumber 1800000000\<rparr>)])
     = ''<card 2>''"
  using hasExpired_inclusive [of "\<lambda>s. None" 1700000000000 "EndNumber 1700000000" 1700000000 "''x''"
          "\<lparr>ev_event = ''801'', ev_start = EndNumber 1600000000, ev_end = EndNumber 1700000000\<rparr>"
          "\<lambda>num d. ''<card '' @ num @ ''>''" "\<lparr>innerEventsCell = [], console_log = [], started = []\<rparr>" "''1''"
          "[(1700000000000, ''1'', \<lparr>ev_event = ''801'', ev_start = EndNumber 1600000000, ev_end = EndNumber 1700000000\<rparr>),
            (1700000000000, ''2'', \<lparr>ev_event = ''802'', ev_start = EndNumber 1600000000, ev_end = EndNumber 1800000000\<rparr>)]"]
        hasExpired_inclusive [of "\<lambda>s. None" 1700000000000 "EndNumber 1700000000000" 1700000000000 "''x''"
          "\<lparr>ev_event = ''801'', ev_start = EndNumber 1600000000, ev_end = EndNumber 1700000000\<rparr>"
          "\<lambda>num d. ''<card '' @ num @ ''>''" "\<lparr>innerEventsCell = [], console_log = [], started = []\<rparr>" "''1''" "[]"]
  by (simp add: hasExpired_def expirationTime_def processEventPair_def processEvent_def)


section \<open>Properties of the caching fetch\<close>

text \<open>
  Claim C6. With caching enabled and an entry stored under the key of the request: when
  the entry's age (the clock minus its timestamp) is strictly below the duration, the
  call returns the entry's payload and leaves the state as it is, so no request is made;
  when the age is equal to or above the duration, exactly one request is made, and a
  successful load (an \<open>ok\<close> response whose body parses) is stored under the key with the
  clock reading of the store and returned, while after a failed load the old entry is
  gone and nothing is stored.
\<close>

theorem cachedFetch_ttl:
  assumes "ENABLED cfg" and "dataCache w (url @ options) = Some e"
  shows "(t_lookup - timestamp e < DURATION cfg \<longrightarrow>
            cachedFetch cfg fetch t_lookup t_store url options w = (Inr (data e), w)) \<and>
         (DURATION cfg \<le> t_lookup - timestamp e \<longrightarrow>
            requests (snd (cachedFetch cfg fetch t_lookup t_store url options w))
              = requests w @ [(url, options)]) \<and>
         (DURATION cfg \<le> t_lookup - timestamp e \<and>
          fetch url options = Some r \<and> ok r \<and> json r = Some d \<longrightarrow>
            cachedFetch cfg fetch t_lookup t_store url options w =
              (Inr d, w\<lparr>dataCache := (dataCache w)(url @ options \<mapsto> \<lparr>timestamp = t_store, data = d\<rparr>),
                        requests := requests w @ [(url, options)]\<rparr>)) \<and>
         (DURATION cfg \<le> t_lookup - timestamp e \<and>
          \<not> (\<exists>r d. fetch url options = Some r \<and> ok r \<and> json r = Some d) \<longrightarrow>
            isl (fst (cachedFetch cfg fetch t_lookup t_store url options w)) \<and>
            dataCache (snd (cachedFetch cfg fetch t_lookup t_store url options w))
              = (dataCache w)(url @ options := None))"
  using assms
  by (auto simp add: cachedFetch_def fetch_and_store_def Let_def split: option.splits)

theorem cachedFetch_ttl_witness:
  "cachedFetch CONFIG_CACHE (\<lambda>u opts. Some (Response True 200 (Some ''new'')))
      3599999 3600500 ''u'' ''{}'' \<lparr>dataCache = [''u{}'' \<mapsto> \<lparr>timestamp = 0, data = ''old''\<rparr>], requests = []\<rparr>
     = (Inr ''old'', \<lparr>dataCache = [''u{}'' \<mapsto> \<lparr>timestamp = 0, data = ''old''\<rparr>], requests = []\<rparr>) \<and>
   cachedFetch CONFIG_CACHE (\<lambda>u opts. Some (Response True 200 (Some ''new'')))
      3600000 3600500 ''u'' ''{}'' \<lparr>dataCache = [''u{}'' \<mapsto> \<lparr>timestamp = 0, data = ''old''\<rparr>], requests = []\<rparr>
     = (Inr ''new'', \<lparr>dataCache = [''u{}'' \<mapsto> \<lparr>timestamp = 3600500, data = ''new''\<rparr>],
                     requests = [(''u'', ''{}'')]\<rparr>) \<and>
   isl (fst (cachedFetch CONFIG_CACHE (\<lambda>u opts. Some (Response False 503 (Some ''err'')))
      3600000 3600500 ''u'' ''{}'' \<lparr>dataCache = [''u{}'' \<mapsto> \<lparr>timestamp = 0, data = ''old''\<rparr>], requests = []\<rparr>))"
  using cachedFetch_ttl [of CONFIG_CACHE "\<lparr>dataCache = [''u{}'' \<mapsto> \<lparr>timestamp = 0, data = ''old''\<rparr>], requests = []\<rparr>"
           "''u''" "''{}''" "\<lparr>timestamp = 0, data = ''old''\<rparr>" 3599999
           "\<lambda>u opts. Some (Response True 200 (Some ''new''))" 3600500 "Response True 200 (Some ''new'')" "''new''"]
        cachedFetch_ttl [of CONFIG_CACHE "\<lparr>dataCache = [''u{}'' \<mapsto> \<lparr>timestamp = 0, data = ''old''\<rparr>], requests = []\<rparr>"
           "''u''" "''{}''" "\<lparr>timestamp = 0, data = ''old''\<rparr>" 3600000
           "\<lambda>u opts. Some (Response True 200 (Some ''new''))" 3600500 "Response True 200 (Some ''new'')" "''new''"]
        cachedFetch_ttl [of CONFIG_CACHE "\<lparr>dataCache = [''u{}'' \<mapsto> \<lparr>timestamp = 0, data = ''old''\<rparr>], requests = []\<rparr>"
           "''u''" "''{}''" "\<lparr>timestamp = 0, data = ''old''\<rparr>" 3600000
           "\<lambda>u opts. Some (Response False 503 (Some ''err''))" 3600500 "Response True 200 (Some ''new'')" "''new''"]
  by (simp add: CONFIG_CACHE_def)

text \<open>
  On the caching path a response that is not \<open>ok\<close> makes the call fail with its
  status, and a call that fails, on either path, stores nothing: the cache is as before,
  or as before without the expired entry of the key.
\<close>

lemma cachedFetch_enabled_non2xx:
  assumes "ENABLED cfg" and "fetch url options = Some r" and "\<not> ok r"
    and "\<forall>e. dataCache w (url @ options) = Some e \<longrightarrow> DURATION cfg \<le> t_lookup - timestamp e"
  shows "fst (cachedFetch cfg fetch t_lookup t_store url options w) = Inl (HttpError (status r))"
  using assms
  by (auto simp add: cachedFetch_def fetch_and_store_def Let_def split: option.splits)

lemma cachedFetch_failure_stores_nothing:
  assumes "cachedFetch cfg fetch t_lookup t_store url options w = (Inl err, w')"
  shows "dataCache w' = dataCache w \<or> dataCache w' = (dataCache w)(url @ options := None)"
  using assms
  by (auto simp add: cachedFetch_def fetch_and_store_def Let_def split: option.splits if_splits)

text \<open>
  Claim C7 at the input where the code departs from it: with caching disabled, a 404
  response whose body parses is returned as the value of the call; with caching enabled
  the same response makes the call fail with the status.
\<close>

theorem cachedFetch_disabled_non2xx:
  "fst (cachedFetch \<lparr>DURATION = 3600000, ENABLED = False\<rparr>
          (\<lambda>u opts. Some (Response False 404 (Some ''error body'')))
          0 0 ''https://schaledb.com/data/en/students.json'' ''{}''
          \<lparr>dataCache = Map.empty, requests = []\<rparr>)
     = Inr ''error body'' \<and>
   fst (cachedFetch \<lparr>DURATION = 3600000, ENABLED = True\<rparr>
          (\<lambda>u opts. Some (Response False 404 (Some ''error body'')))
          0 0 ''https://schaledb.com/data/en/students.json'' ''{}''
          \<lparr>dataCache = Map.empty, requests = []\<rparr>)
     = Inl (HttpError 404)"
  by (simp add: cachedFetch_def fetch_and_store_def)

section \<open>Properties of the merge\<close>

lemma digit_val_digit_char: "d < 10 \<Longrightarrow> digit_val (digit_char d) = d"
proof -
  assume "d < 10"
  then have "d \<in> {0, 1, 2, 3, 4, 5, 6, 7, 8, 9}" by auto
  then show ?thesis
    by (auto simp add: digit_val_def digit_char_def)
qed

lemma decimal_value_snoc: "decimal_value (s @ [c]) = 10 * decimal_value s + digit_val c"
  by (simp add: decimal_value_def)

lemma decimal_value_string_of_nat: "decimal_value (string_of_nat n) = n"
proof (induction n rule: string_of_nat.induct)
  case (1 n)
  show ?case
  proof (cases "n < 10")
    case True
    then show ?thesis
      by (subst string_of_nat.simps) (simp add: decimal_value_def digit_val_digit_char)
  next
    case False
    then have "decimal_value (string_of_nat n) =
                 10 * decimal_value (string_of_nat (n div 10)) + digit_val (digit_char (n mod 10))"
      by (subst string_of_nat.simps) (simp add: decimal_value_snoc)
    also have "\<dots> = 10 * (n div 10) + n mod 10"
      using 1 False by (simp add: digit_val_digit_char)
    finally show ?thesis by simp
  qed
qed

lemma synthetic_index_key: "synthetic_index (synthetic_key n) = Some n"
  by (simp add: synthetic_index_def synthetic_key_def decimal_value_string_of_nat)

lemma custom_id_fresh:
  assumes "counter_safe pd"
  shows "custom_id pd \<notin> set (map fst pd)"
proof
  assume "custom_id pd \<in> set (map fst pd)"
  with assms have "case synthetic_index (custom_id pd) of None \<Rightarrow> True | Some n \<Rightarrow> n < length pd"
    unfolding counter_safe_def list_all_iff by blast
  then show False
    by (simp add: custom_id_def synthetic_index_key)
qed

lemma map_of_set_prop: "map_of (set_prop k v ps) = (map_of ps)(k \<mapsto> v)"
  by (induction ps) (auto simp add: fun_eq_iff)

lemma set_prop_fresh: "k \<notin> set (map fst ps) \<Longrightarrow> set_prop k v ps = ps @ [(k, v)]"
  by (induction ps) auto

lemma set_prop_keys: "k \<in> set (map fst ps) \<Longrightarrow> map fst (set_prop k v ps) = map fst ps"
  by (induction ps) auto

lemma map_of_Some_key: "map_of ps k = Some v \<Longrightarrow> k \<in> set (map fst ps)"
  by (metis map_of_eq_None_iff option.distinct(1) set_map)

lemma counter_safe_keys:
  "map fst pd' = map fst pd \<Longrightarrow> counter_safe pd' = counter_safe pd"
  by (metis counter_safe_def length_map)

lemma counter_safe_append:
  assumes "counter_safe pd"
  shows "counter_safe (pd @ [(custom_id pd, v)])"
  using assms
  unfolding counter_safe_def list_all_iff
  by (auto split: option.splits simp add: custom_id_def synthetic_index_key less_Suc_eq)

text \<open>What one step does to the working set and to \<open>Object.prototype\<close>.\<close>

lemma merge_step_own:
  assumes "truthy_id (Id_field c)"
    and "map_of (processedData st) (id_to_string (Id_field c)) = Some t"
  shows "merge_step st c =
           st\<lparr>processedData := set_prop (id_to_string (Id_field c))
                 (assign_custom (prototype st) t c) (processedData st)\<rparr>"
  using assms by (simp add: merge_step_def get_property_def Let_def)

lemma merge_step_not_own:
  assumes "truthy_id (Id_field c)"
    and "map_of (processedData st) (id_to_string (Id_field c)) = None"
  shows "processedData (merge_step st c) = processedData st"
  using assms
  by (simp add: merge_step_def get_property_def warn_def Let_def split: option.splits)

lemma merge_step_add:
  assumes "counter_safe (processedData st)" and "\<not> truthy_id (Id_field c)"
  shows "processedData (merge_step st c) =
           processedData st @
             [(custom_id (processedData st), assign_custom (prototype st) empty_student c)]"
  using assms custom_id_fresh [OF assms(1)]
  by (simp add: merge_step_def set_prop_fresh Let_def)


lemma wf_merge_step:
  assumes "distinct (map fst (processedData st))" and "counter_safe (processedData st)"
  shows "distinct (map fst (processedData (merge_step st c))) \<and>
         counter_safe (processedData (merge_step st c))"
proof (cases "truthy_id (Id_field c)")
  case True
  show ?thesis
  proof (cases "map_of (processedData st) (id_to_string (Id_field c))")
    case None
    then show ?thesis using True assms by (simp add: merge_step_not_own)
  next
    case (Some t)
    then have "map fst (processedData (merge_step st c)) = map fst (processedData st)"
      using True map_of_Some_key [OF Some] by (simp add: merge_step_own set_prop_keys)
    then show ?thesis using assms counter_safe_keys by metis
  qed
next
  case False
  have "processedData (merge_step st c) =
           processedData st @
             [(custom_id (processedData st), assign_custom (prototype st) empty_student c)]"
    using merge_step_add [OF assms(2) False] .
  then show ?thesis
    using assms custom_id_fresh [OF assms(2)] counter_safe_append [OF assms(2)]
    by simp
qed

lemma wf_foldl:
  assumes "distinct (map fst (processedData st))" and "counter_safe (processedData st)"
  shows "distinct (map fst (processedData (foldl merge_step st cs))) \<and>
         counter_safe (processedData (foldl merge_step st cs))"
  using assms
proof (induction cs arbitrary: st)
  case Nil
  then show ?case by simp
next
  case (Cons c cs)
  have wf: "distinct (map fst (processedData (merge_step st c)))"
    "counter_safe (processedData (merge_step st c))"
    using wf_merge_step [OF Cons.prems, of c] by blast+
  show ?case using Cons.IH [OF wf] by simp
qed



lemma merge_append:
  "merge proto official (xs @ ys) = foldl merge_step (merge proto official xs) ys"
  by (simp add: merge_def)

lemma wf_merge:
  assumes "distinct (map fst official)" and "counter_safe official"
  shows "distinct (map fst (processedData (merge proto official cs))) \<and>
         counter_safe (processedData (merge proto official cs))"
  unfolding merge_def by (rule wf_foldl) (simp_all add: assms)

lemma merge_step_other_key:
  assumes "counter_safe (processedData st)"
    and "map_of (processedData st) k = Some r"
    and "truthy_id (Id_field c) \<longrightarrow> id_to_string (Id_field c) \<noteq> k"
  shows "map_of (processedData (merge_step st c)) k = Some r"
proof (cases "truthy_id (Id_field c)")
  case True
  show ?thesis
  proof (cases "map_of (processedData st) (id_to_string (Id_field c))")
    case None
    with True assms(2) show ?thesis by (simp add: merge_step_not_own)
  next
    case (Some t)
    with True assms(2,3) show ?thesis by (simp add: merge_step_own map_of_set_prop)
  qed
next
  case False
  have "custom_id (processedData st) \<noteq> k"
    using custom_id_fresh [OF assms(1)] map_of_Some_key [OF assms(2)] by auto
  with False assms(2) show ?thesis
    by (simp add: merge_step_add [OF assms(1) False])
qed

lemma foldl_other_keys:
  assumes "distinct (map fst (processedData st))" and "counter_safe (processedData st)"
    and "map_of (processedData st) k = Some r"
    and "\<forall>c \<in> set cs. truthy_id (Id_field c) \<longrightarrow> id_to_string (Id_field c) \<noteq> k"
  shows "map_of (processedData (foldl merge_step st cs)) k = Some r"
  using assms
proof (induction cs arbitrary: st)
  case Nil
  then show ?case by simp
next
  case (Cons c cs)
  have wf: "distinct (map fst (processedData (merge_step st c)))"
    "counter_safe (processedData (merge_step st c))"
    using wf_merge_step [OF Cons.prems(1,2), of c] by blast+
  have keep: "map_of (processedData (merge_step st c)) k = Some r"
    using merge_step_other_key [OF Cons.prems(2,3), of c] Cons.prems(4) by simp
  have rest: "\<forall>c \<in> set cs. truthy_id (Id_field c) \<longrightarrow> id_to_string (Id_field c) \<noteq> k"
    using Cons.prems(4) by simp
  show ?case using Cons.IH [OF wf keep rest] by simp
qed

lemma length_set_prop: "k \<in> set (map fst ps) \<Longrightarrow> length (set_prop k v ps) = length ps"
  by (induction ps) auto

lemma length_merge_step:
  assumes "counter_safe (processedData st)"
  shows "length (processedData (merge_step st c)) =
           length (processedData st) + (if truthy_id (Id_field c) then 0 else 1)"
proof (cases "truthy_id (Id_field c)")
  case True
  show ?thesis
  proof (cases "map_of (processedData st) (id_to_string (Id_field c))")
    case None
    with True show ?thesis by (simp add: merge_step_not_own)
  next
    case (Some t)
    with True map_of_Some_key [OF Some] show ?thesis
      by (simp add: merge_step_own length_set_prop)
  qed
next
  case False
  with merge_step_add [OF assms False] show ?thesis by simp
qed

lemma length_foldl_merge:
  assumes "distinct (map fst (processedData st))" and "counter_safe (processedData st)"
  shows "length (processedData (foldl merge_step st cs)) =
           length (processedData st) + length (filter (\<lambda>c. \<not> truthy_id (Id_field c)) cs)"
  using assms
proof (induction cs arbitrary: st)
  case Nil
  then show ?case by simp
next
  case (Cons c cs)
  have wf: "distinct (map fst (processedData (merge_step st c)))"
    "counter_safe (processedData (merge_step st c))"
    using wf_merge_step [OF Cons.prems(1,2), of c] by blast+
  show ?case
    using Cons.IH [OF wf] length_merge_step [OF Cons.prems(2), of c] by simp
qed

text \<open>
  Claim C1, as the code has it. The official data has no key \<open>DVDOOM_n\<close> with \<open>n\<close> at
  or above its number of keys, and the identifier is one that the code takes as such: it
  is truthy (not 0, not the empty string). The custom records are applied in the order
  of the list: when \<open>c\<close> carries the identifier \<open>k\<close>, \<open>k\<close> is a key of the working
  set when \<open>c\<close> is reached, and no later record of the list carries \<open>k\<close>, the unified
  record under \<open>k\<close> has as its four custom properties the values read from \<open>c\<close> at
  that moment, whatever earlier records with the same identifier wrote: the value of
  \<open>c\<close> for a property that \<open>c\<close> has, and for a property that \<open>c\<close> lacks
  \<open>undefined\<close> or what \<open>Object.prototype\<close> holds for it by then. For official
  \<open>{id: "A", name: "X"}\<close> and the customs \<open>Y\<close> then \<open>Z\<close> for \<open>"A"\<close> the result
  has \<open>Z\<close>.
\<close>

theorem merge_last_override_wins:
  assumes "distinct (map fst official)" and "counter_safe official"
    and "truthy_id (Id_field c)" and "k = id_to_string (Id_field c)"
    and "k \<in> set (map fst (processedData (merge proto official before)))"
    and "\<forall>c' \<in> set after. truthy_id (Id_field c') \<longrightarrow> id_to_string (Id_field c') \<noteq> k"
    and "P = prototype (merge proto official before)"
  shows "\<exists>r. map_of (processedData (merge proto official (before @ c # after))) k = Some r \<and>
             FamilyName r = Some (read_prop (FamilyName P) (FamilyName c)) \<and>
             PersonalName r = Some (read_prop (PersonalName P) (PersonalName c)) \<and>
             BirthDay r = Some (read_prop (BirthDay P) (BirthDay c)) \<and>
             DirectImage r = Some (read_prop (DirectImage P) (DirectImage c)) \<and>
             (FamilyName c \<noteq> None \<longrightarrow> FamilyName r = FamilyName c) \<and>
             (PersonalName c \<noteq> None \<longrightarrow> PersonalName r = PersonalName c) \<and>
             (BirthDay c \<noteq> None \<longrightarrow> BirthDay r = BirthDay c) \<and>
             (DirectImage c \<noteq> None \<longrightarrow> DirectImage r = DirectImage c)"
proof -
  let ?st = "merge proto official before"
  have wf0: "distinct (map fst (processedData ?st))" "counter_safe (processedData ?st)"
    using wf_merge [OF assms(1,2), of proto before] by blast+
  obtain t where t: "map_of (processedData ?st) k = Some t"
    using assms(5) by (metis map_of_eq_None_iff not_Some_eq set_map)
  have step: "map_of (processedData (merge_step ?st c)) k = Some (assign_custom P t c)"
    using t assms(3,4,7) by (simp add: merge_step_own map_of_set_prop)
  have wf1: "distinct (map fst (processedData (merge_step ?st c)))"
    "counter_safe (processedData (merge_step ?st c))"
    using wf_merge_step [OF wf0, of c] by blast+
  have "map_of (processedData (foldl merge_step (merge_step ?st c) after)) k
          = Some (assign_custom P t c)"
    by (rule foldl_other_keys [OF wf1 step assms(6)])
  moreover have "merge proto official (before @ c # after) = foldl merge_step (merge_step ?st c) after"
    by (simp add: merge_def)
  ultimately have "map_of (processedData (merge proto official (before @ c # after))) k
          = Some (assign_custom P t c)" by simp
  then show ?thesis
    by (auto simp add: assign_custom_def read_prop_def)
qed

theorem merge_last_override_wins_witness:
  "distinct (map fst [(''A'', empty_student\<lparr>Id_field := IdStr ''A'', FamilyName := Some (Str ''X'')\<rparr>)]) \<and>
   counter_safe [(''A'', empty_student\<lparr>Id_field := IdStr ''A'', FamilyName := Some (Str ''X'')\<rparr>)] \<and>
   truthy_id (IdStr ''A'') \<and>
   map_of (processedData (merge empty_student
       [(''A'', empty_student\<lparr>Id_field := IdStr ''A'', FamilyName := Some (Str ''X'')\<rparr>)]
       [empty_student\<lparr>Id_field := IdStr ''A'', FamilyName := Some (Str ''Y'')\<rparr>,
        empty_student\<lparr>Id_field := IdStr ''A'', FamilyName := Some (Str ''Z'')\<rparr>,
        empty_student\<lparr>FamilyName := Some (Str ''W'')\<rparr>])) ''A''
     = Some \<lparr>Id_field = IdStr ''A'', FamilyName = Some (Str ''Z''), PersonalName = Some Undefined,
             BirthDay = Some Undefined, DirectImage = Some Undefined, Rest = []\<rparr>"
proof -
  let ?off = "[(''A'', empty_student\<lparr>Id_field := IdStr ''A'', FamilyName := Some (Str ''X'')\<rparr>)]"
  let ?y = "empty_student\<lparr>Id_field := IdStr ''A'', FamilyName := Some (Str ''Y'')\<rparr>"
  let ?z = "empty_student\<lparr>Id_field := IdStr ''A'', FamilyName := Some (Str ''Z'')\<rparr>"
  let ?w = "empty_student\<lparr>FamilyName := Some (Str ''W'')\<rparr>"
  have h1: "distinct (map fst ?off)" by simp
  have h2: "counter_safe ?off" by code_simp
  have h3: "truthy_id (Id_field ?z)" by (simp add: empty_student_def)
  have h4: "''A'' = id_to_string (Id_field ?z)" by (simp add: empty_student_def)
  have h5: "''A'' \<in> set (map fst (processedData (merge empty_student ?off [?y])))" by code_simp
  have h6: "\<forall>c' \<in> set [?w]. truthy_id (Id_field c') \<longrightarrow> id_to_string (Id_field c') \<noteq> ''A''"
    by (simp add: empty_student_def)
  have h7: "empty_student = prototype (merge empty_student ?off [?y])" by code_simp
  have v: "map_of (processedData (merge empty_student ?off [?y, ?z, ?w])) ''A''
             = Some \<lparr>Id_field = IdStr ''A'', FamilyName = Some (Str ''Z''),
                     PersonalName = Some Undefined, BirthDay = Some Undefined,
                     DirectImage = Some Undefined, Rest = []\<rparr>" by code_simp
  from merge_last_override_wins [OF h1 h2 h3 h4 h5 h6 h7]
  have "\<exists>r. map_of (processedData (merge empty_student ?off ([?y] @ ?z # [?w]))) ''A'' = Some r \<and>
            FamilyName r = Some (read_prop (FamilyName empty_student) (FamilyName ?z))"
    by blast
  with h1 h2 v show ?thesis by simp
qed

text \<open>
  Three inputs at which the last override does not decide. The official key
  \<open>DVDOOM_1\<close> is the key that the counter gives to a later record without
  identifier, whose new object replaces the record that \<open>Y\<close> and \<open>Z\<close> had
  overridden. Custom records with \<open>Id: 0\<close> are taken as records without identifier,
  so the official record under the key \<open>0\<close> keeps its values. After a custom record
  with \<open>Id: "__proto__"\<close> has put \<open>FamilyName: "P"\<close> on \<open>Object.prototype\<close>, the
  last record for \<open>"A"\<close>, which has no \<open>FamilyName\<close>, writes \<open>"P"\<close>.
\<close>

theorem merge_last_override_counterexample:
  "map_of (processedData (merge empty_student
       [(''DVDOOM_1'', empty_student\<lparr>Id_field := IdStr ''DVDOOM_1'', FamilyName := Some (Str ''X'')\<rparr>)]
       [empty_student\<lparr>Id_field := IdStr ''DVDOOM_1'', FamilyName := Some (Str ''Y'')\<rparr>,
        empty_student\<lparr>Id_field := IdStr ''DVDOOM_1'', FamilyName := Some (Str ''Z'')\<rparr>,
        empty_student\<lparr>FamilyName := Some (Str ''W'')\<rparr>])) ''DVDOOM_1''
     = Some \<lparr>Id_field = IdUndefined, FamilyName = Some (Str ''W''), PersonalName = Some Undefined,
             BirthDay = Some Undefined, DirectImage = Some Undefined, Rest = []\<rparr> \<and>
   map_of (processedData (merge empty_student
       [(''0'', empty_student\<lparr>Id_field := IdNum 0, FamilyName := Some (Str ''Zero'')\<rparr>)]
       [empty_student\<lparr>Id_field := IdNum 0, FamilyName := Some (Str ''Y'')\<rparr>,
        empty_student\<lparr>Id_field := IdNum 0, FamilyName := Some (Str ''Z'')\<rparr>])) ''0''
     = Some (empty_student\<lparr>Id_field := IdNum 0, FamilyName := Some (Str ''Zero'')\<rparr>) \<and>
   map_of (processedData (merge empty_student
       [(''A'', empty_student\<lparr>Id_field := IdStr ''A'', FamilyName := Some (Str ''X'')\<rparr>)]
       [empty_student\<lparr>Id_field := IdStr ''__proto__'', FamilyName := Some (Str ''P'')\<rparr>,
        empty_student\<lparr>Id_field := IdStr ''A'', FamilyName := Some (Str ''Y'')\<rparr>,
        empty_student\<lparr>Id_field := IdStr ''A'', PersonalName := Some (Str ''Q'')\<rparr>])) ''A''
     = Some \<lparr>Id_field = IdStr ''A'', FamilyName = Some (Str ''P''), PersonalName = Some (Str ''Q''),
             BirthDay = Some Undefined, DirectImage = Some Undefined, Rest = []\<rparr>"
  by code_simp

text \<open>
  Claim C2, for official data in which the counter of new entries cannot reach an
  existing key (no key \<open>DVDOOM_n\<close> with \<open>n\<close> at or above the number of keys). A
  custom record without identifier gets the key \<open>DVDOOM_n\<close>, \<open>n\<close> the current number
  of keys, which is not a key of the working set at that moment; the record is appended,
  populated from the custom fields only, and every existing entry stays as it is,
  whatever its fields. The keys of the result are distinct, and the result has one entry
  per official key and one per custom record without identifier.
\<close>

theorem merge_addition_fresh:
  assumes "distinct (map fst official)" and "counter_safe official"
    and "\<not> truthy_id (Id_field c)"
  shows "custom_id (processedData (merge proto official before))
           \<notin> set (map fst (processedData (merge proto official before))) \<and>
         processedData (merge proto official (before @ [c])) =
           processedData (merge proto official before) @
             [(custom_id (processedData (merge proto official before)),
               assign_custom (prototype (merge proto official before)) empty_student c)] \<and>
         distinct (map fst (processedData (merge proto official customs))) \<and>
         length (processedData (merge proto official customs)) =
           length official + length (filter (\<lambda>c. \<not> truthy_id (Id_field c)) customs)"
proof -
  let ?st = "merge proto official before"
  have wf0: "distinct (map fst (processedData ?st))" "counter_safe (processedData ?st)"
    using wf_merge [OF assms(1,2), of proto before] by blast+
  have a: "custom_id (processedData ?st) \<notin> set (map fst (processedData ?st))"
    by (rule custom_id_fresh [OF wf0(2)])
  have b: "processedData (merge proto official (before @ [c])) =
           processedData ?st @
             [(custom_id (processedData ?st), assign_custom (prototype ?st) empty_student c)]"
    using merge_step_add [OF wf0(2) assms(3)] by (simp add: merge_append)
  have c: "distinct (map fst (processedData (merge proto official customs)))"
    using wf_merge [OF assms(1,2), of proto customs] by blast
  have d: "length (processedData (merge proto official customs)) =
           length official + length (filter (\<lambda>c. \<not> truthy_id (Id_field c)) customs)"
    unfolding merge_def
    using length_foldl_merge
      [of "\<lparr>processedData = official, warnings = [], prototype = proto\<rparr>" customs] assms(1,2)
    by simp
  show ?thesis by (rule conjI [OF a conjI [OF b conjI [OF c d]]])
qed

theorem merge_addition_fresh_witness:
  "distinct (map fst [(''10000'', empty_student\<lparr>Id_field := IdNum 10000, FamilyName := Some (Str ''X'')\<rparr>)]) \<and>
   counter_safe [(''10000'', empty_student\<lparr>Id_field := IdNum 10000, FamilyName := Some (Str ''X'')\<rparr>)] \<and>
   \<not> truthy_id (Id_field (empty_student\<lparr>FamilyName := Some (Str ''X'')\<rparr>)) \<and>
   processedData (merge empty_student
       [(''10000'', empty_student\<lparr>Id_field := IdNum 10000, FamilyName := Some (Str ''X'')\<rparr>)]
       [empty_student\<lparr>FamilyName := Some (Str ''W'')\<rparr>, empty_student\<lparr>FamilyName := Some (Str ''X'')\<rparr>])
     = [(''10000'', empty_student\<lparr>Id_field := IdNum 10000, FamilyName := Some (Str ''X'')\<rparr>),
        (''DVDOOM_1'', assign_custom empty_student empty_student (empty_student\<lparr>FamilyName := Some (Str ''W'')\<rparr>)),
        (''DVDOOM_2'', assign_custom empty_student empty_student (empty_student\<lparr>FamilyName := Some (Str ''X'')\<rparr>))]"
proof -
  let ?off = "[(''10000'', empty_student\<lparr>Id_field := IdNum 10000, FamilyName := Some (Str ''X'')\<rparr>)]"
  let ?w = "empty_student\<lparr>FamilyName := Some (Str ''W'')\<rparr>"
  let ?x = "empty_student\<lparr>FamilyName := Some (Str ''X'')\<rparr>"
  have h1: "distinct (map fst ?off)" by simp
  have h2: "counter_safe ?off" by code_simp
  have h3: "\<not> truthy_id (Id_field ?x)" by (simp add: empty_student_def)
  have p: "processedData (merge empty_student ?off [?w]) =
             [(''10000'', empty_student\<lparr>Id_field := IdNum 10000, FamilyName := Some (Str ''X'')\<rparr>),
              (''DVDOOM_1'', assign_custom empty_student empty_student ?w)]" by code_simp
  have k: "custom_id (processedData (merge empty_student ?off [?w])) = ''DVDOOM_2''" by code_simp
  have q: "prototype (merge empty_student ?off [?w]) = empty_student" by code_simp
  from merge_addition_fresh [OF h1 h2 h3, of empty_student "[?w]" "[?w, ?x]"]
  have "processedData (merge empty_student ?off ([?w] @ [?x])) =
          processedData (merge empty_student ?off [?w]) @
            [(custom_id (processedData (merge empty_student ?off [?w])),
              assign_custom (prototype (merge empty_student ?off [?w])) empty_student ?x)]"
    by blast
  with h1 h2 h3 p k q show ?thesis by simp
qed

text \<open>
  Without the condition the counter can give a key that exists: with the single
  official key \<open>DVDOOM_1\<close> the first record without identifier is stored under
  \<open>DVDOOM_1\<close> and the official record is gone.
\<close>

theorem merge_addition_overwrites_counterexample:
  "custom_id [(''DVDOOM_1'', empty_student\<lparr>Id_field := IdNum 10000, FamilyName := Some (Str ''X''),
                 Rest := [(''School'', ''Trinity'')]\<rparr>)] = ''DVDOOM_1'' \<and>
   processedData (merge empty_student
       [(''DVDOOM_1'', empty_student\<lparr>Id_field := IdNum 10000, FamilyName := Some (Str ''X''),
                 Rest := [(''School'', ''Trinity'')]\<rparr>)]
       [empty_student\<lparr>FamilyName := Some (Str ''W'')\<rparr>])
     = [(''DVDOOM_1'', \<lparr>Id_field = IdUndefined, FamilyName = Some (Str ''W''),
           PersonalName = Some Undefined, BirthDay = Some Undefined,
           DirectImage = Some Undefined, Rest = []\<rparr>)]"
  by code_simp




section \<open>Properties of the index\<close>

lemma names_bucket_add:
  "set (map name (bucket_add b nm img)) = insert nm (set (map name b))"
  by (induction b) auto

lemma distinct_names_bucket_add:
  "distinct (map name b) \<Longrightarrow> distinct (map name (bucket_add b nm img))"
proof (induction b)
  case Nil
  then show ?case by simp
next
  case (Cons e es)
  then show ?case
    using names_bucket_add [of es nm img] by auto
qed

lemma distinct_images_bucket_add:
  "\<forall>e \<in> set b. distinct (images e) \<Longrightarrow>
   \<forall>e \<in> set (bucket_add b nm img). distinct (images e)"
  by (induction b) auto

lemma bucket_add_found:
  "nm \<in> set (map name b) \<Longrightarrow> distinct (map name b) \<Longrightarrow>
   map name (bucket_add b nm img) = map name b \<and>
   map images (bucket_add b nm img) =
     map (\<lambda>e. if name e = nm \<and> img \<notin> set (images e) then images e @ [img] else images e) b"
proof (induction b)
  case Nil
  then show ?case by simp
next
  case (Cons e es)
  show ?case
  proof (cases "name e = nm")
    case True
    then have "nm \<notin> name ` set es" using Cons.prems(2) by simp
    then have "\<forall>x \<in> set es. name x \<noteq> nm" by blast
    then have "map (\<lambda>e. if name e = nm \<and> img \<notin> set (images e) then images e @ [img] else images e) es
                 = map images es" by (induction es) auto
    with True show ?thesis by simp
  next
    case False
    with Cons show ?thesis by auto
  qed
qed

lemma bucket_add_new:
  "nm \<notin> set (map name b) \<Longrightarrow> bucket_add b nm img = b @ [\<lparr>name = nm, images = [img]\<rparr>]"
  by (induction b) auto

lemma bucket_ok_add: "bucket_ok b \<Longrightarrow> bucket_ok (bucket_add b nm img)"
  unfolding bucket_ok_def
  using distinct_names_bucket_add distinct_images_bucket_add by blast

lemma index_step_skip: "parsed_date proto s = None \<Longrightarrow> index_step proto acc s = acc"
  by (auto simp add: parsed_date_def index_step_def split: jsval.splits option.splits)

lemma index_step_parsed:
  assumes "parsed_date proto s = Some (m, d)"
  shows "index_step proto acc s =
           acc(m \<mapsto> (case acc m of None \<Rightarrow> Map.empty | Some x \<Rightarrow> x)
                    (d \<mapsto> bucket_add (bucket_at acc m d) (student_name proto s) (student_image proto s)))"
proof -
  from assms obtain b g1 g2 where b: "read_prop (BirthDay proto) (BirthDay s) = Str b"
      "birthday_match b = Some (g1, g2)"
    and m: "m = Number g1" and d: "d = Number g2"
    by (auto simp add: parsed_date_def split: jsval.splits option.splits)
  have "bucket_at acc m d =
          (case (case acc m of None \<Rightarrow> Map.empty | Some x \<Rightarrow> x) d of None \<Rightarrow> [] | Some es \<Rightarrow> es)"
    by (simp add: bucket_at_def split: option.splits)
  then show ?thesis
    unfolding index_step_def by (simp add: b m d Let_def)
qed

lemma bucket_at_index_step:
  assumes "parsed_date proto s = Some (m, d)"
  shows "bucket_at (index_step proto acc s) m' d' =
     (if m' = m \<and> d' = d then bucket_add (bucket_at acc m d) (student_name proto s) (student_image proto s)
      else bucket_at acc m' d')"
  unfolding index_step_parsed [OF assms]
  by (simp add: bucket_at_def split: option.splits)

lemma index_step_defined:
  assumes "index_step proto acc s m = Some days" and "days d = Some b"
  shows "(parsed_date proto s = Some (m, d) \<and>
          b = bucket_add (bucket_at acc m d) (student_name proto s) (student_image proto s)) \<or>
         (\<exists>days0. acc m = Some days0 \<and> days0 d = Some b)"
proof (cases "parsed_date proto s")
  case None
  then show ?thesis using assms by (simp add: index_step_skip)
next
  case (Some md)
  obtain m0 d0 where md: "md = (m0, d0)" by (cases md) auto
  note st = index_step_parsed [OF Some [unfolded md], of acc]
  show ?thesis
  proof (cases "m = m0")
    case False
    then show ?thesis using assms st by simp
  next
    case True
    show ?thesis
    proof (cases "d = d0")
      case True
      have "Some days = Some ((case acc m0 of None \<Rightarrow> Map.empty | Some x \<Rightarrow> x)
                    (d0 \<mapsto> bucket_add (bucket_at acc m0 d0) (student_name proto s) (student_image proto s)))"
        using assms(1) \<open>m = m0\<close> unfolding st by simp
      then have "days d0 = Some (bucket_add (bucket_at acc m0 d0) (student_name proto s) (student_image proto s))"
        by simp
      with assms(2) True \<open>m = m0\<close> Some md show ?thesis by simp
    next
      case False
      have "Some days = Some ((case acc m0 of None \<Rightarrow> Map.empty | Some x \<Rightarrow> x)
                    (d0 \<mapsto> bucket_add (bucket_at acc m0 d0) (student_name proto s) (student_image proto s)))"
        using assms(1) \<open>m = m0\<close> unfolding st by simp
      then have "days d = (case acc m0 of None \<Rightarrow> Map.empty | Some x \<Rightarrow> x) d"
        using False by simp
      with assms(2) have "(case acc m0 of None \<Rightarrow> Map.empty | Some x \<Rightarrow> x) d = Some b"
        by simp
      then have "\<exists>days0. acc m0 = Some days0 \<and> days0 d = Some b"
        by (cases "acc m0") simp_all
      with \<open>m = m0\<close> show ?thesis by simp
    qed
  qed
qed

lemma bucket_ok_at: "index_ok acc \<Longrightarrow> bucket_ok (bucket_at acc m d)"
  by (auto simp add: index_ok_def bucket_at_def bucket_ok_def split: option.splits)

lemma index_ok_step: "index_ok acc \<Longrightarrow> index_ok (index_step proto acc s)"
  unfolding index_ok_def [of "index_step proto acc s"]
proof (intro allI impI)
  fix m days d b
  assume ok: "index_ok acc" and 1: "index_step proto acc s m = Some days" and 2: "days d = Some b"
  from index_step_defined [OF 1 2] show "bucket_ok b"
  proof
    assume "parsed_date proto s = Some (m, d) \<and>
            b = bucket_add (bucket_at acc m d) (student_name proto s) (student_image proto s)"
    then show ?thesis using bucket_ok_add [OF bucket_ok_at [OF ok]] by simp
  next
    assume "\<exists>days0. acc m = Some days0 \<and> days0 d = Some b"
    then show ?thesis using ok unfolding index_ok_def by blast
  qed
qed

lemma index_ok_foldl: "index_ok acc \<Longrightarrow> index_ok (foldl (index_step proto) acc ss)"
  by (induction ss arbitrary: acc) (simp_all add: index_ok_step)

lemma index_ok_index_of: "index_ok (index_of proto ss)"
  unfolding index_of_def by (rule index_ok_foldl) (simp add: index_ok_def)

lemma foldl_index_origin:
  "foldl (index_step proto) acc ss m = Some days \<Longrightarrow> days d = Some b \<Longrightarrow>
   (\<exists>s \<in> set ss. parsed_date proto s = Some (m, d)) \<or> (\<exists>days0 b0. acc m = Some days0 \<and> days0 d = Some b0)"
proof (induction ss arbitrary: acc)
  case Nil
  then show ?case by auto
next
  case (Cons s ss)
  from Cons.IH [of "index_step proto acc s"] Cons.prems
  have "(\<exists>s \<in> set ss. parsed_date proto s = Some (m, d)) \<or>
        (\<exists>days0 b0. index_step proto acc s m = Some days0 \<and> days0 d = Some b0)" by simp
  then show ?case
  proof
    assume "\<exists>s \<in> set ss. parsed_date proto s = Some (m, d)"
    then show ?thesis by auto
  next
    assume "\<exists>days0 b0. index_step proto acc s m = Some days0 \<and> days0 d = Some b0"
    then obtain days0 b0 where "index_step proto acc s m = Some days0" "days0 d = Some b0" by blast
    from index_step_defined [OF this] show ?thesis by auto
  qed
qed

lemma index_of_origin:
  "index_of proto ss m = Some days \<Longrightarrow> days d = Some b \<Longrightarrow> \<exists>s \<in> set ss. parsed_date proto s = Some (m, d)"
  unfolding index_of_def using foldl_index_origin [of proto Map.empty ss m days d b] by simp

lemma not_digit_slash: "\<not> is_digit CHR ''/''"
  by (simp add: is_digit_def)

lemma match_at_Some:
  assumes "match_at s = Some (g1, g2)"
  shows "g1 \<noteq> [] \<and> g2 \<noteq> [] \<and> list_all is_digit g1 \<and> list_all is_digit g2 \<and>
         (\<exists>post. s = g1 @ CHR ''/'' # g2 @ post \<and> (post = [] \<or> \<not> is_digit (hd post)))"
proof -
  from assms obtain r2 where g1: "g1 = takeWhile is_digit s" "g1 \<noteq> []"
    and r: "dropWhile is_digit s = CHR ''/'' # r2"
    and g2: "g2 = takeWhile is_digit r2" "g2 \<noteq> []"
    by (auto simp add: match_at_def Let_def split: if_splits list.splits)
  have "s = takeWhile is_digit s @ dropWhile is_digit s" by simp
  also have "\<dots> = g1 @ CHR ''/'' # (takeWhile is_digit r2 @ dropWhile is_digit r2)"
    using g1 r by simp
  finally have s: "s = g1 @ CHR ''/'' # g2 @ dropWhile is_digit r2" using g2 by simp
  have p: "dropWhile is_digit r2 = [] \<or> \<not> is_digit (hd (dropWhile is_digit r2))"
    by (metis hd_dropWhile)
  have "list_all is_digit g1" "list_all is_digit g2"
    using g1 g2 by (auto simp add: list_all_iff dest: set_takeWhileD)
  with s p g1 g2 show ?thesis by blast
qed

lemma match_at_starts:
  assumes "h1 \<noteq> []" "h2 \<noteq> []" "list_all is_digit h1" "list_all is_digit h2"
  shows "match_at (h1 @ CHR ''/'' # h2 @ rest) \<noteq> None"
proof -
  have t1: "takeWhile is_digit (h1 @ CHR ''/'' # h2 @ rest) = h1"
    using assms(3) not_digit_slash by (simp add: list_all_iff takeWhile_append2)
  have d1: "dropWhile is_digit (h1 @ CHR ''/'' # h2 @ rest) = CHR ''/'' # h2 @ rest"
    using assms(3) not_digit_slash by (simp add: list_all_iff dropWhile_append2)
  obtain c cs where h2: "h2 = c # cs" using assms(2) by (cases h2) auto
  then have "is_digit c" using assms(4) by simp
  then have t2: "takeWhile is_digit (h2 @ rest) \<noteq> []" using h2 by simp
  show ?thesis
    using assms(1) t2 by (simp add: match_at_def Let_def t1 d1)
qed

lemma match_at_iff: "match_at s \<noteq> None \<longleftrightarrow> starts_with_date s"
proof
  assume "match_at s \<noteq> None"
  then obtain g1 g2 where "match_at s = Some (g1, g2)" by auto
  from match_at_Some [OF this] show "starts_with_date s"
    unfolding starts_with_date_def by blast
next
  assume "starts_with_date s"
  then show "match_at s \<noteq> None"
    unfolding starts_with_date_def using match_at_starts by blast
qed

lemma birthday_match_None_iff:
  "birthday_match s = None \<longleftrightarrow> (\<forall>i \<le> length s. \<not> starts_with_date (drop i s))"
proof (induction s)
  case Nil
  show ?case by (simp add: starts_with_date_def)
next
  case (Cons c cs)
  have split: "(\<forall>i \<le> length (c # cs). \<not> starts_with_date (drop i (c # cs))) \<longleftrightarrow>
               \<not> starts_with_date (c # cs) \<and> (\<forall>i \<le> length cs. \<not> starts_with_date (drop i cs))"
  proof
    assume a: "\<forall>i \<le> length (c # cs). \<not> starts_with_date (drop i (c # cs))"
    have "\<not> starts_with_date (c # cs)" using a [rule_format, of 0] by simp
    moreover have "\<forall>i \<le> length cs. \<not> starts_with_date (drop i cs)"
    proof (intro allI impI)
      fix i assume "i \<le> length cs"
      then show "\<not> starts_with_date (drop i cs)" using a [rule_format, of "Suc i"] by simp
    qed
    ultimately show "\<not> starts_with_date (c # cs) \<and> (\<forall>i \<le> length cs. \<not> starts_with_date (drop i cs))"
      by blast
  next
    assume a: "\<not> starts_with_date (c # cs) \<and> (\<forall>i \<le> length cs. \<not> starts_with_date (drop i cs))"
    show "\<forall>i \<le> length (c # cs). \<not> starts_with_date (drop i (c # cs))"
    proof (intro allI impI)
      fix i assume i: "i \<le> length (c # cs)"
      show "\<not> starts_with_date (drop i (c # cs))"
      proof (cases i)
        case 0
        then show ?thesis using a by simp
      next
        case (Suc j)
        then show ?thesis using a i by simp
      qed
    qed
  qed
  show ?case
  proof (cases "match_at (c # cs)")
    case None
    then have "\<not> starts_with_date (c # cs)" using match_at_iff by blast
    with None Cons.IH split show ?thesis by simp
  next
    case (Some g)
    then have "starts_with_date (c # cs)" using match_at_iff by (metis option.distinct(1))
    with Some split show ?thesis by simp
  qed
qed

lemma birthday_match_Some:
  "birthday_match s = Some (g1, g2) \<Longrightarrow>
   g1 \<noteq> [] \<and> g2 \<noteq> [] \<and> list_all is_digit g1 \<and> list_all is_digit g2 \<and>
   (\<exists>pre post. s = pre @ g1 @ CHR ''/'' # g2 @ post \<and>
      (post = [] \<or> \<not> is_digit (hd post)) \<and>
      (\<forall>i < length pre. \<not> starts_with_date (drop i s)))"
proof (induction s)
  case Nil
  then show ?case by simp
next
  case (Cons c cs)
  show ?case
  proof (cases "match_at (c # cs)")
    case None
    then have nd: "\<not> starts_with_date (c # cs)" using match_at_iff by blast
    from None Cons.prems have "birthday_match cs = Some (g1, g2)" by simp
    from Cons.IH [OF this] obtain pre post where
      g: "g1 \<noteq> [] \<and> g2 \<noteq> [] \<and> list_all is_digit g1 \<and> list_all is_digit g2"
      and cs: "cs = pre @ g1 @ CHR ''/'' # g2 @ post"
      and post: "post = [] \<or> \<not> is_digit (hd post)"
      and left: "\<forall>i < length pre. \<not> starts_with_date (drop i cs)" by blast
    have 1: "c # cs = (c # pre) @ g1 @ CHR ''/'' # g2 @ post" using cs by simp
    have 2: "\<forall>i < length (c # pre). \<not> starts_with_date (drop i (c # cs))"
    proof (intro allI impI)
      fix i assume i: "i < length (c # pre)"
      show "\<not> starts_with_date (drop i (c # cs))"
      proof (cases i)
        case 0
        then show ?thesis using nd by simp
      next
        case (Suc j)
        then show ?thesis using left i by simp
      qed
    qed
    from g 1 2 post show ?thesis by blast
  next
    case (Some g)
    with Cons.prems have "match_at (c # cs) = Some (g1, g2)" by simp
    from match_at_Some [OF this] obtain post where
      g: "g1 \<noteq> [] \<and> g2 \<noteq> [] \<and> list_all is_digit g1 \<and> list_all is_digit g2"
      and 1: "c # cs = [] @ g1 @ CHR ''/'' # g2 @ post"
      and post: "post = [] \<or> \<not> is_digit (hd post)" by auto
    have 2: "\<forall>i < length ([]::string). \<not> starts_with_date (drop i (c # cs))" by simp
    from g 1 2 post show ?thesis by blast
  qed
qed

lemma match_at_exact:
  assumes "g1 \<noteq> []" "g2 \<noteq> []" "list_all is_digit g1" "list_all is_digit g2"
  shows "match_at (g1 @ CHR ''/'' # g2) = Some (g1, g2)"
proof -
  have t1: "takeWhile is_digit (g1 @ CHR ''/'' # g2) = g1"
    using assms(3) not_digit_slash by (simp add: list_all_iff takeWhile_append2)
  have d1: "dropWhile is_digit (g1 @ CHR ''/'' # g2) = CHR ''/'' # g2"
    using assms(3) not_digit_slash by (simp add: list_all_iff dropWhile_append2)
  have t2: "takeWhile is_digit g2 = g2"
    using assms(4) by (simp add: list_all_iff)
  show ?thesis
    using assms(1,2) by (simp add: match_at_def Let_def t1 d1 t2)
qed

lemma birthday_match_exact:
  assumes "g1 \<noteq> []" "g2 \<noteq> []" "list_all is_digit g1" "list_all is_digit g2"
  shows "birthday_match (g1 @ CHR ''/'' # g2) = Some (g1, g2)"
proof -
  obtain c cs where "g1 @ CHR ''/'' # g2 = c # cs" by (cases "g1 @ CHR ''/'' # g2") auto
  then show ?thesis
    using match_at_exact [OF assms] by (metis birthday_match.simps(2) option.simps(5))
qed

lemma digit_val_less: "is_digit c \<Longrightarrow> digit_val c < 10"
  by (auto simp add: is_digit_def digit_val_def)

lemma decimal_value_bound: "list_all is_digit g \<Longrightarrow> decimal_value g < 10 ^ length g"
proof (induction g rule: rev_induct)
  case Nil
  show ?case by (simp add: decimal_value_def)
next
  case (snoc c g)
  then have "decimal_value g < 10 ^ length g" and "digit_val c < 10"
    by (simp_all add: digit_val_less)
  then have "10 * decimal_value g + digit_val c < 10 * 10 ^ length g" by simp
  then show ?case by (simp add: decimal_value_snoc)
qed

lemma Number_exact:
  assumes "list_all is_digit g" and "length g \<le> 15"
  shows "Number g = Fin (decimal_value g)"
proof -
  have "decimal_value g < 10 ^ length g" by (rule decimal_value_bound [OF assms(1)])
  also have "(10::nat) ^ length g \<le> 10 ^ 15"
    by (rule power_increasing) (use assms(2) in simp_all)
  also have "(10::nat) ^ 15 < 2 ^ 53" by simp
  finally show ?thesis by (simp add: Number_def to_double_def)
qed

lemma parsed_date_Some:
  assumes "parsed_date proto s = Some (m, d)"
  shows "\<exists>str g1 g2 pre post. read_prop (BirthDay proto) (BirthDay s) = Str str \<and>
           str = pre @ g1 @ CHR ''/'' # g2 @ post \<and>
           g1 \<noteq> [] \<and> g2 \<noteq> [] \<and> list_all is_digit g1 \<and> list_all is_digit g2 \<and>
           (post = [] \<or> \<not> is_digit (hd post)) \<and>
           (\<forall>i < length pre. \<not> starts_with_date (drop i str)) \<and>
           m = Number g1 \<and> d = Number g2"
proof -
  from assms obtain str g1 g2 where b: "read_prop (BirthDay proto) (BirthDay s) = Str str"
      "birthday_match str = Some (g1, g2)"
    and m: "m = Number g1" "d = Number g2"
    by (auto simp add: parsed_date_def split: jsval.splits option.splits)
  from birthday_match_Some [OF b(2)] b(1) m show ?thesis by blast
qed

lemma parsed_date_None_iff:
  assumes "read_prop (BirthDay proto) (BirthDay s) = Str str"
  shows "parsed_date proto s = None \<longleftrightarrow> (\<forall>i \<le> length str. \<not> starts_with_date (drop i str))"
  using assms birthday_match_None_iff [of str]
  by (auto simp add: parsed_date_def split: option.splits)

lemma index_step_month:
  assumes "index_step proto acc s m = Some days"
  shows "(\<exists>d. parsed_date proto s = Some (m, d)) \<or> acc m \<noteq> None"
proof (cases "parsed_date proto s")
  case None
  then show ?thesis using assms by (simp add: index_step_skip)
next
  case (Some md)
  obtain m0 d0 where md: "md = (m0, d0)" by (cases md) auto
  note st = index_step_parsed [OF Some [unfolded md], of acc]
  show ?thesis
  proof (cases "m = m0")
    case True
    then show ?thesis using Some md by simp
  next
    case False
    then show ?thesis using assms st by simp
  qed
qed

lemma foldl_index_month:
  "foldl (index_step proto) acc ss m = Some days \<Longrightarrow>
   (\<exists>s \<in> set ss. \<exists>d. parsed_date proto s = Some (m, d)) \<or> acc m \<noteq> None"
proof (induction ss arbitrary: acc)
  case Nil
  then show ?case by auto
next
  case (Cons s ss)
  from Cons.IH [of "index_step proto acc s"] Cons.prems
  have "(\<exists>s \<in> set ss. \<exists>d. parsed_date proto s = Some (m, d)) \<or> index_step proto acc s m \<noteq> None" by simp
  then show ?case
  proof
    assume "\<exists>s \<in> set ss. \<exists>d. parsed_date proto s = Some (m, d)"
    then show ?thesis by auto
  next
    assume "index_step proto acc s m \<noteq> None"
    then obtain days0 where "index_step proto acc s m = Some days0" by blast
    from index_step_month [OF this] show ?thesis by auto
  qed
qed

lemma index_of_month:
  "index_of proto ss m = Some days \<Longrightarrow> \<exists>s \<in> set ss. \<exists>d. parsed_date proto s = Some (m, d)"
  unfolding index_of_def using foldl_index_month [of proto Map.empty ss m days] by simp


lemma names_index_step:
  assumes "nm \<in> set (map name (bucket_at acc m d))"
  shows "nm \<in> set (map name (bucket_at (index_step proto acc s) m d))"
proof (cases "parsed_date proto s")
  case None
  then show ?thesis using assms by (simp add: index_step_skip)
next
  case (Some md)
  obtain m0 d0 where md: "md = (m0, d0)" by (cases md) auto
  show ?thesis
    using assms names_bucket_add [of "bucket_at acc m d" "student_name proto s" "student_image proto s"]
    by (auto simp add: bucket_at_index_step [OF Some [unfolded md]])
qed

lemma names_foldl_index:
  "nm \<in> set (map name (bucket_at acc m d)) \<Longrightarrow>
   nm \<in> set (map name (bucket_at (foldl (index_step proto) acc ss) m d))"
proof (induction ss arbitrary: acc)
  case Nil
  then show ?case by simp
next
  case (Cons x xs)
  from Cons.IH [OF names_index_step [OF Cons.prems, of proto x]] show ?case by simp
qed

lemma foldl_index_covers:
  "s \<in> set ss \<Longrightarrow> parsed_date proto s = Some (m, d) \<Longrightarrow>
   student_name proto s \<in> set (map name (bucket_at (foldl (index_step proto) acc ss) m d))"
proof (induction ss arbitrary: acc)
  case Nil
  then show ?case by simp
next
  case (Cons x xs)
  show ?case
  proof (cases "s = x")
    case True
    have "student_name proto s \<in> set (map name (bucket_at (index_step proto acc s) m d))"
      using names_bucket_add [of "bucket_at acc m d" "student_name proto s" "student_image proto s"]
      by (simp add: bucket_at_index_step [OF Cons.prems(2)])
    from names_foldl_index [OF this] True show ?thesis by simp
  next
    case False
    with Cons.prems have "s \<in> set xs" by simp
    from Cons.IH [OF this Cons.prems(2)] show ?thesis by simp
  qed
qed

lemma index_of_covers:
  "s \<in> set ss \<Longrightarrow> parsed_date proto s = Some (m, d) \<Longrightarrow>
   student_name proto s \<in> set (map name (bucket_at (index_of proto ss) m d))"
  unfolding index_of_def by (rule foldl_index_covers)

text \<open>The definitions that evaluate the index of concrete records.\<close>

lemmas index_eval =
  index_of_def index_step_def parsed_date_def read_prop_def match_at_def is_digit_def
  Number_def to_double_def decimal_value_def digit_val_def bucket_at_def
  student_name_def student_image_def empty_student_def

text \<open>
  Claim C4. In the index of any list of records, the names within one bucket are
  distinct and no entry lists an image twice. A record with a parsed date goes through
  \<open>bucket_add\<close> on its bucket: when the bucket has an entry of the record's name, the
  names stay as they are and the image is appended to that entry's images only if it is
  not among them; otherwise a new entry with the single image is appended. Two records
  named \<open>Alice Smith\<close> dated \<open>3/5\<close> with images \<open>img1\<close> and \<open>img2\<close>, and a third
  that repeats \<open>img1\<close>, give one entry with the images \<open>img1, img2\<close>.
\<close>

theorem index_bucket_dedup:
  "(index_of proto students m = Some days \<and> days d = Some b \<longrightarrow>
      distinct (map name b) \<and> (\<forall>e \<in> set b. distinct (images e))) \<and>
   (parsed_date proto s = Some (m, d) \<longrightarrow>
      bucket_at (index_step proto acc s) m d =
        bucket_add (bucket_at acc m d) (student_name proto s) (student_image proto s)) \<and>
   (nm \<in> set (map name b0) \<and> distinct (map name b0) \<longrightarrow>
      map name (bucket_add b0 nm img) = map name b0 \<and>
      map images (bucket_add b0 nm img) =
        map (\<lambda>e. if name e = nm \<and> img \<notin> set (images e) then images e @ [img] else images e) b0) \<and>
   (nm \<notin> set (map name b0) \<longrightarrow> bucket_add b0 nm img = b0 @ [\<lparr>name = nm, images = [img]\<rparr>]) \<and>
   bucket_at (index_of proto
      [empty_student\<lparr>FamilyName := Some (Str ''Alice''), PersonalName := Some (Str ''Smith''),
                      BirthDay := Some (Str ''3/5''), DirectImage := Some (Str ''img1'')\<rparr>,
       empty_student\<lparr>FamilyName := Some (Str ''Alice''), PersonalName := Some (Str ''Smith''),
                      BirthDay := Some (Str ''3/5''), DirectImage := Some (Str ''img2'')\<rparr>,
       empty_student\<lparr>FamilyName := Some (Str ''Alice''), PersonalName := Some (Str ''Smith''),
                      BirthDay := Some (Str ''3/5''), DirectImage := Some (Str ''img1'')\<rparr>])
      (Fin 3) (Fin 5)
     = [\<lparr>name = ''Alice Smith'', images = [''img1'', ''img2'']\<rparr>]"
proof -
  have a: "index_of proto students m = Some days \<and> days d = Some b \<longrightarrow>
      distinct (map name b) \<and> (\<forall>e \<in> set b. distinct (images e))"
    using index_ok_index_of [of proto students] unfolding index_ok_def bucket_ok_def by blast
  have b: "parsed_date proto s = Some (m, d) \<longrightarrow>
      bucket_at (index_step proto acc s) m d =
        bucket_add (bucket_at acc m d) (student_name proto s) (student_image proto s)"
    by (simp add: bucket_at_index_step)
  have c: "nm \<in> set (map name b0) \<and> distinct (map name b0) \<longrightarrow>
      map name (bucket_add b0 nm img) = map name b0 \<and>
      map images (bucket_add b0 nm img) =
        map (\<lambda>e. if name e = nm \<and> img \<notin> set (images e) then images e @ [img] else images e) b0"
    using bucket_add_found by blast
  have e: "nm \<notin> set (map name b0) \<longrightarrow> bucket_add b0 nm img = b0 @ [\<lparr>name = nm, images = [img]\<rparr>]"
    using bucket_add_new by blast
  have f: "bucket_at (index_of proto
      [empty_student\<lparr>FamilyName := Some (Str ''Alice''), PersonalName := Some (Str ''Smith''),
                      BirthDay := Some (Str ''3/5''), DirectImage := Some (Str ''img1'')\<rparr>,
       empty_student\<lparr>FamilyName := Some (Str ''Alice''), PersonalName := Some (Str ''Smith''),
                      BirthDay := Some (Str ''3/5''), DirectImage := Some (Str ''img2'')\<rparr>,
       empty_student\<lparr>FamilyName := Some (Str ''Alice''), PersonalName := Some (Str ''Smith''),
                      BirthDay := Some (Str ''3/5''), DirectImage := Some (Str ''img1'')\<rparr>])
      (Fin 3) (Fin 5)
     = [\<lparr>name = ''Alice Smith'', images = [''img1'', ''img2'']\<rparr>]"
    by (simp add: index_eval)
  show ?thesis
    by (rule conjI [OF a conjI [OF b conjI [OF c conjI [OF e f]]]])
qed

theorem index_bucket_dedup_witness:
  "index_of empty_student
      [empty_student\<lparr>FamilyName := Some (Str ''Alice''), PersonalName := Some (Str ''Smith''),
                      BirthDay := Some (Str ''3/5''), DirectImage := Some (Str ''img1'')\<rparr>,
       empty_student\<lparr>FamilyName := Some (Str ''Alice''), PersonalName := Some (Str ''Smith''),
                      BirthDay := Some (Str ''3/5''), DirectImage := Some (Str ''img2'')\<rparr>] (Fin 3)
     = Some [Fin 5 \<mapsto> [\<lparr>name = ''Alice Smith'', images = [''img1'', ''img2'']\<rparr>]] \<and>
   distinct (map name [\<lparr>name = ''Alice Smith'', images = [''img1'', ''img2'']\<rparr>]) \<and>
   distinct [''img1'', ''img2''] \<and>
   ''Alice Smith'' \<in> set (map name [\<lparr>name = ''Alice Smith'', images = [''img1'']\<rparr>]) \<and>
   bucket_add [\<lparr>name = ''Alice Smith'', images = [''img1'']\<rparr>] ''Alice Smith'' ''img2''
     = [\<lparr>name = ''Alice Smith'', images = [''img1'', ''img2'']\<rparr>] \<and>
   ''Bob Jones'' \<notin> set (map name [\<lparr>name = ''Alice Smith'', images = [''img1'']\<rparr>]) \<and>
   bucket_add [\<lparr>name = ''Alice Smith'', images = [''img1'']\<rparr>] ''Bob Jones'' ''img3''
     = [\<lparr>name = ''Alice Smith'', images = [''img1'']\<rparr>, \<lparr>name = ''Bob Jones'', images = [''img3'']\<rparr>]"
proof -
  let ?a = "empty_student\<lparr>FamilyName := Some (Str ''Alice''), PersonalName := Some (Str ''Smith''),
                      BirthDay := Some (Str ''3/5''), DirectImage := Some (Str ''img1'')\<rparr>"
  let ?c = "empty_student\<lparr>FamilyName := Some (Str ''Alice''), PersonalName := Some (Str ''Smith''),
                      BirthDay := Some (Str ''3/5''), DirectImage := Some (Str ''img2'')\<rparr>"
  let ?new = "[\<lparr>name = ''Alice Smith'', images = [''img1'', ''img2'']\<rparr>]"
  let ?old = "[\<lparr>name = ''Alice Smith'', images = [''img1'']\<rparr>]"
  have ix: "index_of empty_student [?a, ?c] (Fin 3) = Some [Fin 5 \<mapsto> ?new]"
    by (simp add: index_eval)
  have h: "[Fin 5 \<mapsto> ?new] (Fin 5) = Some ?new" by simp
  have n1: "''Alice Smith'' \<in> set (map name ?old) \<and> distinct (map name ?old)" by simp
  have n2: "''Bob Jones'' \<notin> set (map name ?old)" by simp
  from index_bucket_dedup [of empty_student "[?a, ?c]" "Fin 3" "[Fin 5 \<mapsto> ?new]" "Fin 5" ?new ?c
          "index_of empty_student [?a]" "''Alice Smith''" ?old "''img2''"] ix h n1
  have r1: "distinct (map name ?new) \<and> (\<forall>e \<in> set ?new. distinct (images e)) \<and>
            map name (bucket_add ?old ''Alice Smith'' ''img2'') = map name ?old"
    by blast
  from index_bucket_dedup [of empty_student "[?a, ?c]" "Fin 3" "[Fin 5 \<mapsto> ?new]" "Fin 5" ?new ?c
          "index_of empty_student [?a]" "''Bob Jones''" ?old "''img3''"] n2
  have r2: "bucket_add ?old ''Bob Jones'' ''img3'' = ?old @ [\<lparr>name = ''Bob Jones'', images = [''img3'']\<rparr>]"
    by blast
  from ix r1 r2 show ?thesis by simp
qed

text \<open>
  Claim C5, as the code has it. A record whose date reads as \<open>undefined\<close> (it has
  none and \<open>Object.prototype\<close> supplies none, or it is \<open>undefined\<close>), or in whose
  date the pattern occurs at no position, leaves the index as it is, and only such a
  record does. Every other record is read at the first position at which one or more
  digits, a slash and one or more digits start, each group taken as far as the digits
  go; the month and the day are \<open>Number\<close> of the two groups, of any length and with
  no range check (the exact value for groups of up to 15 digits, a rounded one beyond:
  9007199254740993 gives 9007199254740992), and the record's name is in the bucket of
  that month and day. The index has a month, and under it a day,
  only where some record was read with them; so when every date that is read has its
  month in 1 to 12 and its day in 1 to 31, the index maps only such months to such days.
\<close>

theorem index_of_parsed_dates:
  "(parsed_date proto s = None \<longrightarrow> index_step proto acc s = acc) \<and>
   (read_prop (BirthDay proto) (BirthDay s) = Undefined \<longrightarrow> parsed_date proto s = None) \<and>
   (BirthDay s = None \<and> BirthDay proto = None \<longrightarrow> parsed_date proto s = None) \<and>
   (read_prop (BirthDay proto) (BirthDay s) = Str str \<longrightarrow>
      (parsed_date proto s = None \<longleftrightarrow> (\<forall>i \<le> length str. \<not> starts_with_date (drop i str)))) \<and>
   (parsed_date proto s = Some (m, d) \<longrightarrow>
      (\<exists>str g1 g2 pre post. read_prop (BirthDay proto) (BirthDay s) = Str str \<and>
           str = pre @ g1 @ CHR ''/'' # g2 @ post \<and>
           g1 \<noteq> [] \<and> g2 \<noteq> [] \<and> list_all is_digit g1 \<and> list_all is_digit g2 \<and>
           (post = [] \<or> \<not> is_digit (hd post)) \<and>
           (\<forall>i < length pre. \<not> starts_with_date (drop i str)) \<and>
           m = Number g1 \<and> d = Number g2)) \<and>
   (list_all is_digit g \<and> length g \<le> 15 \<longrightarrow> Number g = Fin (decimal_value g)) \<and>
   Number ''9007199254740993'' = Fin 9007199254740992 \<and>
   (s \<in> set students \<and> parsed_date proto s = Some (m, d) \<longrightarrow>
      student_name proto s \<in> set (map name (bucket_at (index_of proto students) m d))) \<and>
   (index_of proto students m = Some days \<longrightarrow>
      (\<exists>s \<in> set students. \<exists>d. parsed_date proto s = Some (m, d))) \<and>
   (index_of proto students m = Some days \<and> days d = Some b \<longrightarrow>
      (\<exists>s \<in> set students. parsed_date proto s = Some (m, d))) \<and>
   ((\<forall>s \<in> set students. \<forall>m d. parsed_date proto s = Some (m, d) \<longrightarrow>
        m \<in> Fin ` {1..12} \<and> d \<in> Fin ` {1..31}) \<and>
    index_of proto students m = Some days \<longrightarrow>
      m \<in> Fin ` {1..12} \<and> (\<forall>d \<in> dom days. d \<in> Fin ` {1..31}))"
proof -
  have a: "parsed_date proto s = None \<longrightarrow> index_step proto acc s = acc"
    by (simp add: index_step_skip)
  have b: "read_prop (BirthDay proto) (BirthDay s) = Undefined \<longrightarrow> parsed_date proto s = None"
    by (simp add: parsed_date_def)
  have b': "BirthDay s = None \<and> BirthDay proto = None \<longrightarrow> parsed_date proto s = None"
    by (simp add: parsed_date_def read_prop_def)
  have c: "read_prop (BirthDay proto) (BirthDay s) = Str str \<longrightarrow>
      (parsed_date proto s = None \<longleftrightarrow> (\<forall>i \<le> length str. \<not> starts_with_date (drop i str)))"
    using parsed_date_None_iff by blast
  have e: "parsed_date proto s = Some (m, d) \<longrightarrow>
      (\<exists>str g1 g2 pre post. read_prop (BirthDay proto) (BirthDay s) = Str str \<and>
           str = pre @ g1 @ CHR ''/'' # g2 @ post \<and>
           g1 \<noteq> [] \<and> g2 \<noteq> [] \<and> list_all is_digit g1 \<and> list_all is_digit g2 \<and>
           (post = [] \<or> \<not> is_digit (hd post)) \<and>
           (\<forall>i < length pre. \<not> starts_with_date (drop i str)) \<and>
           m = Number g1 \<and> d = Number g2)"
    using parsed_date_Some by blast
  have n: "list_all is_digit g \<and> length g \<le> 15 \<longrightarrow> Number g = Fin (decimal_value g)"
    using Number_exact by blast
  have r: "Number ''9007199254740993'' = Fin 9007199254740992"
    by (simp add: Number_def to_double_def decimal_value_def digit_val_def bit_length.simps Let_def)
  have i: "s \<in> set students \<and> parsed_date proto s = Some (m, d) \<longrightarrow>
      student_name proto s \<in> set (map name (bucket_at (index_of proto students) m d))"
    using index_of_covers by blast
  have f: "index_of proto students m = Some days \<longrightarrow>
             (\<exists>s \<in> set students. \<exists>d. parsed_date proto s = Some (m, d))"
    using index_of_month by blast
  have g: "index_of proto students m = Some days \<and> days d = Some b \<longrightarrow>
      (\<exists>s \<in> set students. parsed_date proto s = Some (m, d))"
    using index_of_origin by blast
  have h: "(\<forall>s \<in> set students. \<forall>m d. parsed_date proto s = Some (m, d) \<longrightarrow>
        m \<in> Fin ` {1..12} \<and> d \<in> Fin ` {1..31}) \<and>
    index_of proto students m = Some days \<longrightarrow>
      m \<in> Fin ` {1..12} \<and> (\<forall>d \<in> dom days. d \<in> Fin ` {1..31})"
  proof (intro impI, elim conjE)
    assume rng: "\<forall>s \<in> set students. \<forall>m d. parsed_date proto s = Some (m, d) \<longrightarrow>
        m \<in> Fin ` {1..12} \<and> d \<in> Fin ` {1..31}"
      and ix: "index_of proto students m = Some days"
    from index_of_month [OF ix] rng have 1: "m \<in> Fin ` {1..12}" by blast
    have 2: "\<forall>d \<in> dom days. d \<in> Fin ` {1..31}"
    proof
      fix d' assume "d' \<in> dom days"
      then obtain b' where "days d' = Some b'" by blast
      from index_of_origin [OF ix this] rng show "d' \<in> Fin ` {1..31}" by blast
    qed
    from 1 2 show "m \<in> Fin ` {1..12} \<and> (\<forall>d \<in> dom days. d \<in> Fin ` {1..31})" by blast
  qed
  show ?thesis
    by (rule conjI [OF a conjI [OF b conjI [OF b' conjI [OF c conjI [OF e conjI [OF n
          conjI [OF r conjI [OF i conjI [OF f conjI [OF g h]]]]]]]]]])
qed

theorem index_of_parsed_dates_witness:
  "parsed_date empty_student (empty_student\<lparr>BirthDay := Some (Str ''March 5'')\<rparr>) = None \<and>
   index_step empty_student Map.empty (empty_student\<lparr>BirthDay := Some (Str ''March 5'')\<rparr>) = Map.empty \<and>
   BirthDay empty_student = None \<and> parsed_date empty_student empty_student = None \<and>
   parsed_date empty_student
     (empty_student\<lparr>BirthDay := Some (Str ''Born 03/05!''), DirectImage := Some (Str ''img1'')\<rparr>)
     = Some (Fin 3, Fin 5) \<and>
   list_all is_digit ''03'' \<and> length ''03'' \<le> 15 \<and> Number ''03'' = Fin 3 \<and>
   index_of empty_student
     [empty_student, empty_student\<lparr>BirthDay := Some (Str ''March 5'')\<rparr>,
      empty_student\<lparr>BirthDay := Some (Str ''Born 03/05!''), DirectImage := Some (Str ''img1'')\<rparr>] (Fin 3)
     = Some [Fin 5 \<mapsto> [\<lparr>name = ''undefined undefined'', images = [''img1'']\<rparr>]] \<and>
   ''undefined undefined'' \<in> set (map name (bucket_at (index_of empty_student
     [empty_student, empty_student\<lparr>BirthDay := Some (Str ''March 5'')\<rparr>,
      empty_student\<lparr>BirthDay := Some (Str ''Born 03/05!''), DirectImage := Some (Str ''img1'')\<rparr>])
     (Fin 3) (Fin 5))) \<and>
   Fin 3 \<in> Fin ` {1..12} \<and> Fin 5 \<in> Fin ` {1..31}"
proof -
  let ?s = "empty_student\<lparr>BirthDay := Some (Str ''Born 03/05!''), DirectImage := Some (Str ''img1'')\<rparr>"
  let ?t = "empty_student\<lparr>BirthDay := Some (Str ''March 5'')\<rparr>"
  let ?all = "[empty_student, ?t, ?s]"
  let ?days = "[Fin 5 \<mapsto> [\<lparr>name = ''undefined undefined'', images = [''img1'']\<rparr>]]"
  have p1: "parsed_date empty_student ?t = None" by (simp add: index_eval)
  have p2: "BirthDay empty_student = None" by (simp add: empty_student_def)
  have p3: "parsed_date empty_student ?s = Some (Fin 3, Fin 5)" by (simp add: index_eval)
  have p4: "list_all is_digit ''03'' \<and> length ''03'' \<le> 15" by (simp add: is_digit_def)
  have p5: "parsed_date empty_student empty_student = None" by (simp add: index_eval)
  have p6: "?s \<in> set ?all" by simp
  have ix: "index_of empty_student ?all (Fin 3) = Some ?days" by (simp add: index_eval)
  have nm: "student_name empty_student ?s = ''undefined undefined''" by (simp add: index_eval)
  have dv: "decimal_value ''03'' = 3" by (simp add: decimal_value_def digit_val_def)
  note th = index_of_parsed_dates [of empty_student ?s Map.empty "''Born 03/05!''" "Fin 3" "Fin 5"
          "''03''" ?all ?days "[\<lparr>name = ''undefined undefined'', images = [''img1'']\<rparr>]"]
  from th p3 p6 nm have r1: "''undefined undefined'' \<in> set (map name (bucket_at
          (index_of empty_student ?all) (Fin 3) (Fin 5)))" by simp
  from th p4 dv have r2: "Number ''03'' = Fin 3" by simp
  from index_of_parsed_dates [of empty_student ?t Map.empty "''March 5''" "Fin 3" "Fin 5"
          "''03''" ?all ?days "[\<lparr>name = ''undefined undefined'', images = [''img1'']\<rparr>]"] p1
  have r3: "index_step empty_student Map.empty ?t = Map.empty" by blast
  from p1 p2 p3 p4 p5 ix r1 r2 r3 show ?thesis by simp
qed

text \<open>
  The pattern bounds neither the length nor the value of the groups: \<open>13/45\<close> is
  indexed under month 13 and day 45, and \<open>2024/12/25\<close> is read as month 2024, day 12.
  A record without a date of its own is indexed when \<open>Object.prototype\<close> has a
  \<open>BirthDay\<close>.
\<close>

theorem index_of_parsed_dates_counterexample:
  "bucket_at (index_of empty_student
      [empty_student\<lparr>FamilyName := Some (Str ''Hina''), PersonalName := Some (Str ''Sorasaki''),
        BirthDay := Some (Str ''13/45''), DirectImage := Some (Str ''img'')\<rparr>]) (Fin 13) (Fin 45)
     = [\<lparr>name = ''Hina Sorasaki'', images = [''img'']\<rparr>] \<and>
   parsed_date empty_student (empty_student\<lparr>BirthDay := Some (Str ''2024/12/25'')\<rparr>)
     = Some (Fin 2024, Fin 12) \<and>
   BirthDay (empty_student\<lparr>FamilyName := Some (Str ''Hina''), PersonalName := Some (Str ''Sorasaki''),
        DirectImage := Some (Str ''img'')\<rparr>) = None \<and>
   bucket_at (index_of (empty_student\<lparr>BirthDay := Some (Str ''3/5'')\<rparr>)
      [empty_student\<lparr>FamilyName := Some (Str ''Hina''), PersonalName := Some (Str ''Sorasaki''),
        DirectImage := Some (Str ''img'')\<rparr>]) (Fin 3) (Fin 5)
     = [\<lparr>name = ''Hina Sorasaki'', images = [''img'']\<rparr>]"
  by (simp add: index_eval)

section \<open>Properties of the countdown timers\<close>

text \<open>
  A tick of an interval of \<open>initializeEventTimer\<close> whose element lookup fails, on a
  page where nothing defines a global \<open>timerIds\<close>: the update function runs, throws,
  and leaves the intervals and the tracking array as they were.
\<close>

lemma tick_missing_target_throws:
  assumes "map_of (intervals p) h = Some (UpdateEventTimer startTime endTime)"
    and "map_of (elements p) (string_of_nat h) = None"
    and "global_timerIds p = None"
  shows "tick now h p = p\<lparr>invoked := invoked p @ [h],
                          uncaught := uncaught p @ [''ReferenceError: timerIds is not defined'']\<rparr>"
  using assms
  by (simp add: tick_def updateEventTimer_def cleanup_from_update_def)

text \<open>
  Claim C9 at the inputs where the code departs from it. A timer registered by
  \<open>initializeEventTimer\<close> with no display target on the page: at the first tick the
  lookup fails and the cleanup call throws, so after two ticks the interval is still
  active, its handle is still in \<open>timerIds\<close>, and the update function has run twice.
  A timer created by \<open>createCountdownTimer\<close> whose target is removed afterwards: the
  first tick clears the interval and the second tick runs nothing, but the handle stays
  in \<open>timerIds\<close>.
\<close>

theorem updateEventTimer_never_cancels:
  "tick 3000 1 (tick 2000 1 (initializeEventTimer 1000 90001000
      \<lparr>elements = [], intervals = [], next_handle = 1, timerIds = [],
         global_timerIds = None, invoked = [], uncaught = []\<rparr>))
     = \<lparr>elements = [], intervals = [(1, UpdateEventTimer 1000 90001000)], next_handle = 2,
        timerIds = [1], global_timerIds = None, invoked = [1, 1],
        uncaught = [''ReferenceError: timerIds is not defined'',
                    ''ReferenceError: timerIds is not defined'']\<rparr> \<and>
   tick 3500 2 (tick 2500 2 ((createCountdownTimer 1500 1000 90001000 ''event-timer-1''
      \<lparr>elements = [(''event-timer-1'', '''')], intervals = [], next_handle = 1, timerIds = [],
         global_timerIds = None, invoked = [], uncaught = []\<rparr>)\<lparr>elements := []\<rparr>))
     = \<lparr>elements = [], intervals = [(1, NotCallable)], next_handle = 3,
        timerIds = [2], global_timerIds = None, invoked = [1, 2], uncaught = []\<rparr>"
  by code_simp

end
